theory Spec2Isabelle
  imports Main "HOL-Library.Sublist"
begin

section \<open>Python string primitives used by codegen.py\<close>

text \<open>
  Python's \<^verbatim>\<open>str\<close> is a sequence of code points. The development represents a
  string as a \<^typ>\<open>string\<close> whose characters are the code points below 256 (ASCII
  and the Latin-1 supplement); the tables for \<^verbatim>\<open>str.lower\<close> and for the regular
  expression class \<^verbatim>\<open>\w\<close> are Python's tables restricted to that range.
\<close>

text \<open>
  \<^verbatim>\<open>str.lower\<close> on one code point: \<^verbatim>\<open>A-Z\<close> and the upper-case letters of the
  Latin-1 supplement (\<^verbatim>\<open>0xC0-0xDE\<close> without the multiplication sign \<^verbatim>\<open>0xD7\<close>)
  move up by 32; every other code point below 256 stays.
\<close>

definition py_lower_char :: "char \<Rightarrow> char" where
  "py_lower_char c =
     (let n = (of_char c :: nat)
      in if (65 \<le> n \<and> n \<le> 90) \<or> (192 \<le> n \<and> n \<le> 222 \<and> n \<noteq> 215)
         then char_of (n + 32) else c)"

definition py_lower :: "string \<Rightarrow> string" where
  "py_lower s = map py_lower_char s"

text \<open>
  \<^verbatim>\<open>s.replace(old, new)\<close>: the occurrences of \<^verbatim>\<open>old\<close> are found from left to
  right without overlap. For the empty \<^verbatim>\<open>old\<close> Python puts \<^verbatim>\<open>new\<close> before
  every character and at the end.
\<close>

function py_replace :: "string \<Rightarrow> string \<Rightarrow> string \<Rightarrow> string" where
  "py_replace old new [] = (if old = [] then new else [])"
| "py_replace old new (x # xs) =
     (if old = [] then new @ x # py_replace old new xs
      else if prefix old (x # xs)
           then new @ py_replace old new (drop (length old) (x # xs))
           else x # py_replace old new xs)"
  by pat_completeness auto
termination
  by (relation "measure (\<lambda>(old, new, s). length s)") auto

text \<open>
  \<^verbatim>\<open>s.split(sep)\<close> for a separator of one character: the pieces between the
  occurrences of the separator, so a string with \<open>k\<close> separators gives \<open>k + 1\<close>
  pieces (the empty string gives one empty piece).
\<close>

fun py_split :: "char \<Rightarrow> string \<Rightarrow> string list" where
  "py_split sep [] = [] # []"
| "py_split sep (x # xs) =
     (if x = sep then [] # py_split sep xs
      else (case py_split sep xs of
              [] \<Rightarrow> [x] # []
            | p # ps \<Rightarrow> (x # p) # ps))"

text \<open>\<^verbatim>\<open>sep.join(parts)\<close>.\<close>

fun py_join :: "string \<Rightarrow> string list \<Rightarrow> string" where
  "py_join sep [] = []"
| "py_join sep [p] = p"
| "py_join sep (p # q # ps) = p @ sep @ py_join sep (q # ps)"

section \<open>The identifier normalizer\<close>

text \<open>
  \<^verbatim>\<open>def to_name_path(name: str):
      return name.lower().replace("!!", ".").replace(":", "").replace(" ", "_")\<close>
\<close>

definition to_name_path :: "string \<Rightarrow> string" where
  "to_name_path name =
     py_replace '' '' ''_'' (py_replace '':'' '''' (py_replace ''!!'' ''.'' (py_lower name)))"

text \<open>
  The normalizer as the specification words it, step by step: lowercase the whole
  string; replace every occurrence of the two-character sequence \<^verbatim>\<open>!!\<close> by a dot;
  remove every colon; replace every space by an underscore.
\<close>

fun bangs_to_dot :: "string \<Rightarrow> string" where
  "bangs_to_dot [] = []"
| "bangs_to_dot [x] = [x]"
| "bangs_to_dot (x # y # xs) =
     (if x = CHR ''!'' \<and> y = CHR ''!'' then CHR ''.'' # bangs_to_dot xs
      else x # bangs_to_dot (y # xs))"

definition normalize_spec :: "string \<Rightarrow> string" where
  "normalize_spec label =
     map (\<lambda>c. if c = CHR '' '' then CHR ''_'' else c)
       (filter (\<lambda>c. c \<noteq> CHR '':'')
         (bangs_to_dot (map py_lower_char label)))"

section \<open>The extractor: the row pattern and \<^verbatim>\<open>re.findall\<close>\<close>

text \<open>
  The regular expression class \<^verbatim>\<open>\w\<close> of a Python \<^verbatim>\<open>str\<close> pattern: the
  alphanumeric code points and the underscore. Below 256 these are the ASCII letters and
  digits, the underscore, the letters of the Latin-1 supplement, and the code points
  \<^verbatim>\<open>0xAA 0xB2 0xB3 0xB5 0xB9 0xBA 0xBC 0xBD 0xBE\<close> (ordinal indicators, micro sign,
  superscript digits and vulgar fractions, which \<^verbatim>\<open>str.isalnum\<close> accepts).
\<close>

definition is_word :: "char \<Rightarrow> bool" where
  "is_word c =
     (let n = (of_char c :: nat)
      in (48 \<le> n \<and> n \<le> 57) \<or> (65 \<le> n \<and> n \<le> 90) \<or> n = 95 \<or> (97 \<le> n \<and> n \<le> 122)
         \<or> n = 170 \<or> n = 178 \<or> n = 179 \<or> n = 181 \<or> n = 185 \<or> n = 186
         \<or> (188 \<le> n \<and> n \<le> 190)
         \<or> (192 \<le> n \<and> n \<le> 214) \<or> (216 \<le> n \<and> n \<le> 246) \<or> (248 \<le> n \<and> n \<le> 255))"

text \<open>
  The three character classes of the patterns in \<^verbatim>\<open>run\<close>: the dot (any character
  but the line feed, as no flag is given), \<^verbatim>\<open>\w\<close>, and
  \<^verbatim>\<open>name_pat = "[\w:! ]"\<close>.
\<close>

datatype cclass = Dot | Word | Name

fun in_class :: "cclass \<Rightarrow> char \<Rightarrow> bool" where
  "in_class Dot c = (c \<noteq> CHR 0x0A)"
| "in_class Word c = is_word c"
| "in_class Name c = (is_word c \<or> c = CHR '':'' \<or> c = CHR ''!'' \<or> c = CHR '' '')"

text \<open>
  The patterns of \<^verbatim>\<open>run\<close> are sequences of literal text, greedy repetitions of one
  character class (\<^verbatim>\<open>.*\<close>, \<^verbatim>\<open>\w+\<close>, \<^verbatim>\<open>[\w:! ]+\<close>) and the parentheses of
  the two capture groups.
\<close>

datatype tok = Str string | Star cclass | Plus cclass | GOpen | GClose

text \<open>
  Matching at the start of the input, with the backtracking order of Python's \<^verbatim>\<open>re\<close>:
  a greedy repetition takes one more character whenever the rest of the pattern then
  still matches, and gives characters back from the right otherwise. The result is the
  input left at each parenthesis, in order, and the input left after the match.
\<close>

fun rmatch :: "tok list \<Rightarrow> string \<Rightarrow> (string list \<times> string) option" where
  "rmatch [] s = Some ([], s)"
| "rmatch (Str l # ts) s = (if prefix l s then rmatch ts (drop (length l) s) else None)"
| "rmatch (Star c # ts) [] = rmatch ts []"
| "rmatch (Star c # ts) (x # xs) =
     (if in_class c x
      then (case rmatch (Star c # ts) xs of
              Some r \<Rightarrow> Some r
            | None \<Rightarrow> rmatch ts (x # xs))
      else rmatch ts (x # xs))"
| "rmatch (Plus c # ts) [] = None"
| "rmatch (Plus c # ts) (x # xs) = (if in_class c x then rmatch (Star c # ts) xs else None)"
| "rmatch (GOpen # ts) s = map_option (\<lambda>(ms, r). (s # ms, r)) (rmatch ts s)"
| "rmatch (GClose # ts) s = map_option (\<lambda>(ms, r). (s # ms, r)) (rmatch ts s)"

text \<open>The text between two positions of the input, each given by the input left there.\<close>

definition span :: "string \<Rightarrow> string \<Rightarrow> string" where
  "span a b = take (length a - length b) a"

text \<open>The tuple \<^verbatim>\<open>re.findall\<close> returns for a pattern with two groups.\<close>

fun groups2 :: "string list \<Rightarrow> string \<times> string" where
  "groups2 [a, b, c, d] = (span a b, span c d)"
| "groups2 ms = ([], [])"

text \<open>
  \<^verbatim>\<open>re.findall(pattern, contents)\<close>: the matches from left to right, without
  overlap; the search goes on where the last match ended, and one character further
  where there is no match. (After an empty match the search moves one character on; the
  patterns of \<^verbatim>\<open>run\<close> begin with literal text and never match the empty string.)
\<close>

function re_findall :: "tok list \<Rightarrow> string \<Rightarrow> (string \<times> string) list" where
  "re_findall ts s =
     (case rmatch ts s of
        Some (ms, r) \<Rightarrow>
          groups2 ms #
            (if length r < length s then re_findall ts r
             else (case s of [] \<Rightarrow> [] | x # xs \<Rightarrow> re_findall ts xs))
      | None \<Rightarrow> (case s of [] \<Rightarrow> [] | x # xs \<Rightarrow> re_findall ts xs))"
  by pat_completeness auto
termination
  by (relation "measure (\<lambda>(ts, s). length s)") auto

declare re_findall.simps [simp del]

text \<open>
  The pattern built in \<^verbatim>\<open>run\<close> from \<^verbatim>\<open>args.indent\<close>:
  \<^verbatim>\<open>
    name_pat = "[\w:! ]"
    if args.indent == 0:
        pattern = rf"""<tr><td><a href="variables\/.*" name=".*">(\w+_\w+)<\/a><\/td><td>({name_pat}+)<\/td>"""
    else:
        sep = " " * args.indent
        pattern = rf"""<tr>\n{sep}<td><a href="variables\/.*" name=".*">(\w+_\w+)<\/a><\/td>\n{sep}<td>({name_pat}+)<\/td>"""
  \<close>
  \<^verbatim>\<open>" " * n\<close> is the empty string for a negative \<^verbatim>\<open>n\<close>.
\<close>

definition row_pattern :: "int \<Rightarrow> tok list" where
  \<open>row_pattern indent =
     (if indent = 0
      then [Str ''<tr><td><a href="variables/'', Star Dot, Str ''" name="'', Star Dot, Str ''">'',
            GOpen, Plus Word, Str ''_'', Plus Word, GClose, Str ''</a></td><td>'',
            GOpen, Plus Name, GClose, Str ''</td>'']
      else (let sep = replicate (nat indent) CHR '' ''
            in [Str ''<tr>\<newline>'', Str sep, Str ''<td><a href="variables/'', Star Dot,
                Str ''" name="'', Star Dot, Str ''">'',
                GOpen, Plus Word, Str ''_'', Plus Word, GClose, Str ''</a></td>\<newline>'', Str sep,
                Str ''<td>'', GOpen, Plus Name, GClose, Str ''</td>'']))\<close>

text \<open>The extraction step of \<^verbatim>\<open>run\<close>: \<^verbatim>\<open>matches = re.findall(pattern, contents)\<close>.\<close>

definition matches_of :: "string \<Rightarrow> int \<Rightarrow> (string \<times> string) list" where
  "matches_of contents indent = re_findall (row_pattern indent) contents"

text \<open>
  The text of one table row as the pattern expects it for an indent: the anchor cell
  and the label cell follow the row tag directly for indent 0, and each on a new line
  after \<open>indent\<close> spaces otherwise.
\<close>

definition row_fragment :: "int \<Rightarrow> string \<Rightarrow> string \<Rightarrow> string \<Rightarrow> string \<Rightarrow> string" where
  \<open>row_fragment indent href name ident label =
     (let brk = (if indent = 0 then [] else CHR 0x0A # replicate (nat indent) CHR '' '')
      in ''<tr>'' @ brk @ ''<td><a href="variables/'' @ href @ ''" name="'' @ name @ ''">''
           @ ident @ ''</a></td>'' @ brk @ ''<td>'' @ label @ ''</td>'')\<close>

section \<open>Files and the two emitters\<close>

text \<open>
  The file system is a map from paths to contents. \<^verbatim>\<open>open(p, "w")\<close> creates or
  truncates the file; each \<^verbatim>\<open>f.write\<close> appends to it, and the \<^verbatim>\<open>with\<close> block
  closes (and flushes) the file also when its body raises. Destinations are taken to
  be writable.
\<close>

type_synonym fs = "string \<rightharpoonup> string"

definition open_w :: "string \<Rightarrow> fs \<Rightarrow> fs" where
  "open_w p fs = fs(p \<mapsto> [])"

definition f_write :: "string \<Rightarrow> string \<Rightarrow> fs \<Rightarrow> fs" where
  "f_write p txt fs = fs(p \<mapsto> (case fs p of None \<Rightarrow> txt | Some old \<Rightarrow> old @ txt))"

datatype py_error = ValueError | FileNotFoundError

text \<open>
  \<^verbatim>\<open>
  def write_csv(matches, csv_filename):
      csv_header = "group,variable,path"
      with open(csv_filename, "w") as f:
          f.write(csv_header + "\n")
          for identifier, name in matches:
              group_id, sgroup_id = identifier.split("_")
              name_path = to_name_path(name)
              f.write(f"{group_id},{sgroup_id},{name_path}\n")
  \<close>
  Unpacking the result of \<^verbatim>\<open>split\<close> into two names raises \<^verbatim>\<open>ValueError\<close>
  unless it has exactly two elements.
\<close>

definition csv_header :: string where
  "csv_header = ''group,variable,path''"

fun write_rows :: "(string \<times> string) list \<Rightarrow> string \<Rightarrow> fs \<Rightarrow> (py_error + unit) \<times> fs" where
  "write_rows [] csv_filename fs = (Inr (), fs)"
| "write_rows ((identifier, name) # rest) csv_filename fs =
     (case py_split CHR ''_'' identifier of
        [group_id, sgroup_id] \<Rightarrow>
          (let name_path = to_name_path name
           in write_rows rest csv_filename
                (f_write csv_filename
                   (group_id @ '','' @ sgroup_id @ '','' @ name_path @ [CHR 0x0A]) fs))
      | _ \<Rightarrow> (Inl ValueError, fs))"

definition write_csv :: "(string \<times> string) list \<Rightarrow> string \<Rightarrow> fs \<Rightarrow> (py_error + unit) \<times> fs" where
  "write_csv matches csv_filename fs =
     write_rows matches csv_filename
       (f_write csv_filename (csv_header @ [CHR 0x0A]) (open_w csv_filename fs))"

text \<open>
  \<^verbatim>\<open>write_rust\<close>: the three sections are joined with a comma and a line feed and
  put into the template (in which \<^verbatim>\<open>format\<close> turns each doubled brace into one).
\<close>

definition class_name :: string where
  "class_name = ''ClassName''"

definition to_string_gen :: "string \<Rightarrow> string \<Rightarrow> string" where
  \<open>to_string_gen g name =
     ''                C::'' @ g @ '' => String::from("'' @ name @ ''")''\<close>

definition to_path_gen :: "string \<Rightarrow> string \<Rightarrow> string" where
  \<open>to_path_gen g name =
     (let path = to_name_path name
      in ''                C::'' @ g @ '' => Ok(String::from("'' @ path @ ''"))'')\<close>

definition codegen :: "(string \<times> string) list \<Rightarrow> string" where
  \<open>codegen matches =
     (let enums = py_join '',\<newline>'' (map (\<lambda>(g, _). ''    '' @ g) matches);
          tostr = py_join '',\<newline>'' (map (\<lambda>(g, n). to_string_gen g n) matches);
          topath = py_join '',\<newline>'' (map (\<lambda>(g, n). to_path_gen g n) matches)
      in ''use serde::{Deserialize, Serialize};\<newline>''
       @ ''\<newline>''
       @ ''#[derive(Serialize, Deserialize)]\<newline>''
       @ ''#[serde(rename_all = "SCREAMING_SNAKE_CASE")]\<newline>''
       @ ''pub enum '' @ class_name @ '' {\<newline>''
       @ enums @ ''\<newline>''
       @ ''}\<newline>''
       @ ''\<newline>''
       @ ''impl ToString for '' @ class_name @ '' {\<newline>''
       @ ''    fn to_string(&self) -> String {\<newline>''
       @ ''        use '' @ class_name @ '' as C;\<newline>''
       @ ''        match self {\<newline>''
       @ tostr @ ''\<newline>''
       @ ''        }\<newline>''
       @ ''    }\<newline>''
       @ ''}\<newline>''
       @ ''\<newline>''
       @ ''impl '' @ class_name @ '' {\<newline>''
       @ ''    \<newline>''
       @ ''    fn to_path(&self) -> String {\<newline>''
       @ ''        use '' @ class_name @ '' as C;\<newline>''
       @ ''        match self {\<newline>''
       @ topath @ ''\<newline>''
       @ ''        }\<newline>''
       @ ''    }\<newline>''
       @ ''}\<newline>''
       @ ''    '')\<close>

definition write_rust :: "(string \<times> string) list \<Rightarrow> string \<Rightarrow> fs \<Rightarrow> (py_error + unit) \<times> fs" where
  "write_rust matches rust_filename fs =
     (Inr (), f_write rust_filename (codegen matches) (open_w rust_filename fs))"

section \<open>The driver\<close>

text \<open>The parsed command line.\<close>

record args =
  filename :: string
  csv :: "string option"
  rs :: "string option"
  indent :: int
  overwrite :: bool

text \<open>What the run prints: a line of text, or the usage summary of the parser.\<close>

datatype out = Print string | PrintUsage

text \<open>
  \<^verbatim>\<open>
  def run():
      args = parser.parse_args()
      ...
      with open(args.filename) as f:
          contents = f.read()
      matches = re.findall(pattern, contents)

      if len(matches) == 0:
          print("no matches found in source file, check formatting")
          parser.print_usage()
          return 1

      if args.csv is not None and (not os.path.exists(args.csv) or args.overwrite):
          write_csv(matches, args.csv)
      if args.rs is not None and (not os.path.exists(args.rs) or args.overwrite):
          write_rust(matches, args.rs)

      return 0
  \<close>
  The result is the exception raised or the value returned, the file system and the
  output. A source file that does not exist raises \<^verbatim>\<open>FileNotFoundError\<close>.
\<close>

text \<open>
  One of the two guarded calls: the emitter runs when a target is given and either no
  file of that name exists (\<^verbatim>\<open>os.path.exists\<close>) or \<^verbatim>\<open>--overwrite\<close> was given.
\<close>

definition emit_if ::
  "string option \<Rightarrow> bool \<Rightarrow> (string \<Rightarrow> fs \<Rightarrow> (py_error + unit) \<times> fs) \<Rightarrow> fs
     \<Rightarrow> (py_error + unit) \<times> fs" where
  "emit_if target ovw emit fs =
     (case target of
        None \<Rightarrow> (Inr (), fs)
      | Some p \<Rightarrow> if fs p = None \<or> ovw then emit p fs else (Inr (), fs))"

definition run :: "args \<Rightarrow> fs \<Rightarrow> (py_error + int) \<times> fs \<times> out list" where
  "run a fs =
     (case fs (filename a) of
        None \<Rightarrow> (Inl FileNotFoundError, fs, [])
      | Some contents \<Rightarrow>
          (let matches = matches_of contents (indent a)
           in if length matches = 0
              then (Inr 1, fs,
                    [Print ''no matches found in source file, check formatting'', PrintUsage])
              else (case emit_if (csv a) (overwrite a) (write_csv matches) fs of
                      (Inl e, fs1) \<Rightarrow> (Inl e, fs1, [])
                    | (Inr u, fs1) \<Rightarrow>
                        (case emit_if (rs a) (overwrite a) (write_rust matches) fs1 of
                           (Inl e, fs2) \<Rightarrow> (Inl e, fs2, [])
                         | (Inr v, fs2) \<Rightarrow> (Inr 0, fs2, [])))))"

text \<open>
  \<^verbatim>\<open>
  if __name__ == "__main__":
      run()
  \<close>
  The value \<^verbatim>\<open>run\<close> returns is dropped. The interpreter ends with status 0 when the
  module has run to its end and with status 1 after an uncaught exception.
\<close>

definition main_guard :: "args \<Rightarrow> fs \<Rightarrow> nat \<times> fs \<times> out list" where
  "main_guard a fs =
     (case run a fs of
        (Inl e, fs', printed) \<Rightarrow> (1, fs', printed)
      | (Inr ret, fs', printed) \<Rightarrow> (0, fs', printed))"

section \<open>Notions used to state the properties\<close>

text \<open>
  The two columns the CSV emitter takes from an identifier: the text before its first
  underscore and the text after it.
\<close>

definition group_part :: "string \<Rightarrow> string" where
  "group_part identifier = takeWhile (\<lambda>c. c \<noteq> CHR ''_'') identifier"

definition subgroup_part :: "string \<Rightarrow> string" where
  "subgroup_part identifier = tl (dropWhile (\<lambda>c. c \<noteq> CHR ''_'') identifier)"

text \<open>The line of the CSV file for one record, and the records that have one.\<close>

definition csv_line :: "string \<times> string \<Rightarrow> string" where
  "csv_line = (\<lambda>(identifier, name).
     group_part identifier @ '','' @ subgroup_part identifier @ '','' @ to_name_path name @ [CHR 0x0A])"

definition two_parts :: "string \<times> string \<Rightarrow> bool" where
  "two_parts = (\<lambda>(identifier, name). count_list identifier CHR ''_'' = 1)"

text \<open>
  The lines of a section of the generated code: joining with a comma and a line feed
  leaves a comma at the end of every line but the last.
\<close>

fun with_commas :: "string list \<Rightarrow> string list" where
  "with_commas [] = []"
| "with_commas [l] = [l]"
| "with_commas (l # m # ls) = (l @ '','') # with_commas (m # ls)"

section \<open>Properties of the string primitives\<close>

lemma of_char_py_lower:
  "(of_char (py_lower_char c) :: nat) =
     (if (65 \<le> (of_char c :: nat) \<and> (of_char c :: nat) \<le> 90)
         \<or> (192 \<le> (of_char c :: nat) \<and> (of_char c :: nat) \<le> 222 \<and> (of_char c :: nat) \<noteq> 215)
      then of_char c + 32 else of_char c)"
  unfolding py_lower_char_def Let_def
  by (simp only: of_char_of if_distrib[of of_char] cong: if_cong) auto

lemma py_lower_char_eq_bang [simp]: "py_lower_char c = CHR ''!'' \<longleftrightarrow> c = CHR ''!''"
proof -
  have "py_lower_char c = CHR ''!'' \<longleftrightarrow>
          (of_char (py_lower_char c) :: nat) = of_char (CHR ''!'')"
    by (simp only: of_char_eq_iff)
  also have "\<dots> \<longleftrightarrow> (of_char c :: nat) = of_char (CHR ''!'')"
    unfolding of_char_py_lower by (auto split: if_splits)
  also have "\<dots> \<longleftrightarrow> c = CHR ''!''"
    by (simp only: of_char_eq_iff)
  finally show ?thesis .
qed

lemma py_lower_char_eq_colon [simp]: "py_lower_char c = CHR '':'' \<longleftrightarrow> c = CHR '':''"
proof -
  have "py_lower_char c = CHR '':'' \<longleftrightarrow>
          (of_char (py_lower_char c) :: nat) = of_char (CHR '':'')"
    by (simp only: of_char_eq_iff)
  also have "\<dots> \<longleftrightarrow> (of_char c :: nat) = of_char (CHR '':'')"
    unfolding of_char_py_lower by (auto split: if_splits)
  also have "\<dots> \<longleftrightarrow> c = CHR '':''"
    by (simp only: of_char_eq_iff)
  finally show ?thesis .
qed

lemma py_lower_char_eq_space [simp]: "py_lower_char c = CHR '' '' \<longleftrightarrow> c = CHR '' ''"
proof -
  have "py_lower_char c = CHR '' '' \<longleftrightarrow>
          (of_char (py_lower_char c) :: nat) = of_char (CHR '' '')"
    by (simp only: of_char_eq_iff)
  also have "\<dots> \<longleftrightarrow> (of_char c :: nat) = of_char (CHR '' '')"
    unfolding of_char_py_lower by (auto split: if_splits)
  also have "\<dots> \<longleftrightarrow> c = CHR '' ''"
    by (simp only: of_char_eq_iff)
  finally show ?thesis .
qed

lemma py_replace_char_map:
  "py_replace [a] [b] s = map (\<lambda>c. if c = a then b else c) s"
  by (induction s) auto

lemma py_replace_char_filter:
  "py_replace [a] [] s = filter (\<lambda>c. c \<noteq> a) s"
  by (induction s) auto

lemma py_replace_bangs: "py_replace ''!!'' ''.'' s = bangs_to_dot s"
  by (induction s rule: bangs_to_dot.induct) auto

lemma bangs_to_dot_id: "\<not> sublist ''!!'' s \<Longrightarrow> bangs_to_dot s = s"
  by (induction s rule: bangs_to_dot.induct) (auto simp: sublist_Cons_right)

lemma prefix_bang_lower:
  "prefix [CHR ''!''] (map py_lower_char s) \<longleftrightarrow> prefix [CHR ''!''] s"
  by (cases s) (auto simp: eq_commute [of "CHR ''!''"])

lemma sublist_bangs_lower:
  "sublist ''!!'' (map py_lower_char s) \<longleftrightarrow> sublist ''!!'' s"
proof (induction s)
  case Nil
  show ?case by simp
next
  case (Cons x xs)
  have "prefix ''!!'' (map py_lower_char (x # xs)) \<longleftrightarrow> prefix ''!!'' (x # xs)"
    using prefix_bang_lower [of xs] by (simp add: eq_commute [of "CHR ''!''"])
  with Cons show ?case
    by (simp only: sublist_Cons_right list.map)
qed

text \<open>
  Claim C2. For every label, the empty one included, \<open>to_name_path\<close> returns the
  lowercased label with every \<^verbatim>\<open>!!\<close> replaced by a dot, then every colon removed,
  then every space replaced by an underscore (the function is total: it returns a string
  and has no error result); and a label with no \<^verbatim>\<open>!!\<close>, no colon and no space is
  mapped to its lowercase form.
\<close>

theorem to_name_path_refines_spec:
  "to_name_path label = normalize_spec label \<and>
   (\<not> sublist ''!!'' label \<and> CHR '':'' \<notin> set label \<and> CHR '' '' \<notin> set label
      \<longrightarrow> to_name_path label = py_lower label)"
proof
  show eq: "to_name_path label = normalize_spec label"
    by (simp add: to_name_path_def normalize_spec_def py_lower_def
          py_replace_char_map py_replace_char_filter py_replace_bangs)
  show "\<not> sublist ''!!'' label \<and> CHR '':'' \<notin> set label \<and> CHR '' '' \<notin> set label
          \<longrightarrow> to_name_path label = py_lower label"
  proof
    assume h: "\<not> sublist ''!!'' label \<and> CHR '':'' \<notin> set label \<and> CHR '' '' \<notin> set label"
    then have b: "bangs_to_dot (map py_lower_char label) = map py_lower_char label"
      by (simp add: bangs_to_dot_id sublist_bangs_lower)
    from h have c: "filter (\<lambda>c. c \<noteq> CHR '':'') (map py_lower_char label) = map py_lower_char label"
      by (auto simp: filter_id_conv)
    from h have d: "map (\<lambda>c. if c = CHR '' '' then CHR ''_'' else c) (map py_lower_char label)
                      = map py_lower_char label"
      by (auto simp: map_idI)
    show "to_name_path label = py_lower label"
      by (simp only: eq normalize_spec_def b c d py_lower_def)
  qed
qed

theorem to_name_path_refines_spec_witness:
  "to_name_path ''Estimate!!Total: Male 5_9'' = ''estimate.total_male_5_9'' \<and>
   to_name_path [] = [] \<and>
   \<not> sublist ''!!'' ''B01001_Total'' \<and> CHR '':'' \<notin> set ''B01001_Total''
     \<and> CHR '' '' \<notin> set ''B01001_Total'' \<and>
   to_name_path ''B01001_Total'' = ''b01001_total''"
proof -
  have a: "normalize_spec ''Estimate!!Total: Male 5_9'' = ''estimate.total_male_5_9''"
    by code_simp
  have b: "normalize_spec [] = []"
    by code_simp
  have c: "\<not> sublist ''!!'' ''B01001_Total'' \<and> CHR '':'' \<notin> set ''B01001_Total''
             \<and> CHR '' '' \<notin> set ''B01001_Total''"
    by code_simp
  have d: "py_lower ''B01001_Total'' = ''b01001_total''"
    by code_simp
  have e: "to_name_path ''B01001_Total'' = py_lower ''B01001_Total''"
    using c to_name_path_refines_spec [of "''B01001_Total''"] by blast
  have f: "to_name_path ''Estimate!!Total: Male 5_9''
             = normalize_spec ''Estimate!!Total: Male 5_9''"
    using to_name_path_refines_spec [of "''Estimate!!Total: Male 5_9''"] by blast
  have g: "to_name_path [] = normalize_spec []"
    using to_name_path_refines_spec [of "[]"] by blast
  show ?thesis
    by (simp only: e f g a b c d simp_thms)
qed

section \<open>What a match of the row pattern looks like\<close>

lemma span_append: "span (w @ t) t = w"
  by (simp add: span_def)

lemma rmatch_Nil_E:
  assumes "rmatch [] s = Some (ms, r)"
  obtains "ms = []" "r = s"
  using assms by simp

lemma rmatch_Str_E:
  assumes "rmatch (Str l # ts) s = Some res"
  obtains s' where "s = l @ s'" "rmatch ts s' = Some res"
proof -
  from assms have p: "prefix l s" and m: "rmatch ts (drop (length l) s) = Some res"
    by (auto split: if_splits)
  from p have "s = l @ drop (length l) s"
    by (auto simp: prefix_def)
  with m that show thesis by blast
qed

lemma rmatch_Star_D:
  "rmatch (Star c # ts) s = Some res \<Longrightarrow>
     \<exists>u s'. s = u @ s' \<and> (\<forall>x\<in>set u. in_class c x) \<and> rmatch ts s' = Some res"
proof (induction s)
  case Nil
  then show ?case by auto
next
  case (Cons x xs)
  show ?case
  proof (cases "in_class c x \<and> rmatch (Star c # ts) xs \<noteq> None")
    case True
    with Cons.prems have "rmatch (Star c # ts) xs = Some res"
      by (auto split: option.splits)
    from Cons.IH [OF this] obtain u s' where
      "xs = u @ s'" "\<forall>y\<in>set u. in_class c y" "rmatch ts s' = Some res"
      by blast
    with True have "x # xs = (x # u) @ s' \<and> (\<forall>y\<in>set (x # u). in_class c y)
        \<and> rmatch ts s' = Some res"
      by simp
    then show ?thesis by blast
  next
    case False
    with Cons.prems have "rmatch ts (x # xs) = Some res"
      by (auto split: if_splits option.splits)
    then have "x # xs = [] @ (x # xs) \<and> (\<forall>y\<in>set []. in_class c y)
        \<and> rmatch ts (x # xs) = Some res"
      by simp
    then show ?thesis by blast
  qed
qed

lemma rmatch_Star_E:
  assumes "rmatch (Star c # ts) s = Some res"
  obtains u s' where "s = u @ s'" "\<forall>x\<in>set u. in_class c x" "rmatch ts s' = Some res"
  using rmatch_Star_D [OF assms] by blast

lemma rmatch_Plus_E:
  assumes "rmatch (Plus c # ts) s = Some res"
  obtains u s' where "s = u @ s'" "u \<noteq> []" "\<forall>x\<in>set u. in_class c x" "rmatch ts s' = Some res"
proof (cases s)
  case Nil
  with assms show thesis by simp
next
  case (Cons x xs)
  with assms have x: "in_class c x" and m: "rmatch (Star c # ts) xs = Some res"
    by (auto split: if_splits)
  from m obtain u s' where "xs = u @ s'" "\<forall>y\<in>set u. in_class c y" "rmatch ts s' = Some res"
    by (rule rmatch_Star_E)
  with x Cons have "s = (x # u) @ s'" "x # u \<noteq> []" "\<forall>y\<in>set (x # u). in_class c y"
    by simp_all
  with \<open>rmatch ts s' = Some res\<close> that show thesis by blast
qed

lemma rmatch_GOpen_E:
  assumes "rmatch (GOpen # ts) s = Some (ms, r)"
  obtains ms' where "ms = s # ms'" "rmatch ts s = Some (ms', r)"
  using assms by auto

lemma rmatch_GClose_E:
  assumes "rmatch (GClose # ts) s = Some (ms, r)"
  obtains ms' where "ms = s # ms'" "rmatch ts s = Some (ms', r)"
  using assms by auto

lemmas rmatch_E = rmatch_Nil_E rmatch_Str_E rmatch_Star_E rmatch_Plus_E rmatch_GOpen_E rmatch_GClose_E

lemma row_pattern_0:
  \<open>row_pattern 0 =
     [Str ''<tr><td><a href="variables/'', Star Dot, Str ''" name="'', Star Dot, Str ''">'',
      GOpen, Plus Word, Str ''_'', Plus Word, GClose, Str ''</a></td><td>'',
      GOpen, Plus Name, GClose, Str ''</td>'']\<close>
  by (simp add: row_pattern_def)

lemma row_pattern_indented:
  \<open>k \<noteq> 0 \<Longrightarrow> row_pattern k =
     [Str ''<tr>\<newline>'', Str (replicate (nat k) CHR '' ''), Str ''<td><a href="variables/'', Star Dot,
      Str ''" name="'', Star Dot, Str ''">'',
      GOpen, Plus Word, Str ''_'', Plus Word, GClose, Str ''</a></td>\<newline>'',
      Str (replicate (nat k) CHR '' ''),
      Str ''<td>'', GOpen, Plus Name, GClose, Str ''</td>'']\<close>
  by (simp add: row_pattern_def Let_def)

lemma span_append3: "span (a @ b @ c @ t) t = a @ b @ c"
  using span_append [of "a @ b @ c" t] by simp

lemma row_match_D:
  assumes "rmatch (row_pattern k) s = Some (ms, r)"
  shows \<open>\<exists>h n a b l.
           s = row_fragment k h n (a @ ''_'' @ b) l @ r
         \<and> CHR 0x0A \<notin> set h \<and> CHR 0x0A \<notin> set n
         \<and> a \<noteq> [] \<and> b \<noteq> [] \<and> (\<forall>x\<in>set a. is_word x) \<and> (\<forall>x\<in>set b. is_word x)
         \<and> l \<noteq> [] \<and> (\<forall>x\<in>set l. in_class Name x)
         \<and> groups2 ms = (a @ ''_'' @ b, l)\<close>
proof -
  define brk where "brk = (if k = 0 then [] else CHR 0x0A # replicate (nat k) CHR '' '')"
  have \<open>\<exists>h n a b l.
          s = ''<tr>'' @ brk @ ''<td><a href="variables/'' @ h @ ''" name="'' @ n @ ''">''
                @ a @ ''_'' @ b @ ''</a></td>'' @ brk @ ''<td>'' @ l @ ''</td>'' @ r
        \<and> ms = [a @ ''_'' @ b @ ''</a></td>'' @ brk @ ''<td>'' @ l @ ''</td>'' @ r,
                ''</a></td>'' @ brk @ ''<td>'' @ l @ ''</td>'' @ r,
                l @ ''</td>'' @ r, ''</td>'' @ r]
        \<and> (\<forall>x\<in>set h. in_class Dot x) \<and> (\<forall>x\<in>set n. in_class Dot x)
        \<and> a \<noteq> [] \<and> (\<forall>x\<in>set a. in_class Word x)
        \<and> b \<noteq> [] \<and> (\<forall>x\<in>set b. in_class Word x)
        \<and> l \<noteq> [] \<and> (\<forall>x\<in>set l. in_class Name x)\<close>
  proof (cases "k = 0")
    case True
    then have "brk = []" by (simp add: brk_def)
    with assms show ?thesis
      unfolding True row_pattern_0
      by (elim rmatch_E) (simp, blast)
  next
    case False
    then have "brk = CHR 0x0A # replicate (nat k) CHR '' ''" by (simp add: brk_def)
    with assms show ?thesis
      unfolding row_pattern_indented [OF False]
      by (elim rmatch_E) (simp, blast)
  qed
  then obtain h n a b l where
    s: \<open>s = ''<tr>'' @ brk @ ''<td><a href="variables/'' @ h @ ''" name="'' @ n @ ''">''
                @ a @ ''_'' @ b @ ''</a></td>'' @ brk @ ''<td>'' @ l @ ''</td>'' @ r\<close>
    and ms: "ms = [a @ ''_'' @ b @ ''</a></td>'' @ brk @ ''<td>'' @ l @ ''</td>'' @ r,
                ''</a></td>'' @ brk @ ''<td>'' @ l @ ''</td>'' @ r,
                l @ ''</td>'' @ r, ''</td>'' @ r]"
    and cls: "\<forall>x\<in>set h. in_class Dot x" "\<forall>x\<in>set n. in_class Dot x"
        "a \<noteq> []" "\<forall>x\<in>set a. in_class Word x"
        "b \<noteq> []" "\<forall>x\<in>set b. in_class Word x"
        "l \<noteq> []" "\<forall>x\<in>set l. in_class Name x"
    by blast
  have g1: "span (a @ ''_'' @ b @ ''</a></td>'' @ brk @ ''<td>'' @ l @ ''</td>'' @ r)
                 (''</a></td>'' @ brk @ ''<td>'' @ l @ ''</td>'' @ r) = a @ ''_'' @ b"
    by (rule span_append3)
  have g2: "span (l @ ''</td>'' @ r) (''</td>'' @ r) = l"
    by (rule span_append)
  have g: "groups2 ms = (a @ ''_'' @ b, l)"
    unfolding ms groups2.simps g1 g2 ..
  have f: "s = row_fragment k h n (a @ ''_'' @ b) l @ r"
    unfolding s by (simp add: row_fragment_def brk_def)
  from cls have "CHR 0x0A \<notin> set h" "CHR 0x0A \<notin> set n"
      "\<forall>x\<in>set a. is_word x" "\<forall>x\<in>set b. is_word x"
    by auto
  with f g cls show ?thesis by blast
qed

subsection \<open>Character classes, and where \<^verbatim>\<open>re.findall\<close> finds its matches\<close>

lemma of_char_newline: "(of_char (CHR 0x0A) :: nat) = 10" by simp

lemma is_word_not_newline: "is_word c \<Longrightarrow> c \<noteq> CHR 0x0A"
proof
  assume w: "is_word c" and "c = CHR 0x0A"
  then have "is_word (CHR 0x0A)" by simp
  then show False by (simp add: is_word_def)
qed

lemma is_word_not_lt: "is_word c \<Longrightarrow> c \<noteq> CHR ''<''"
proof
  assume w: "is_word c" and "c = CHR ''<''"
  then have "is_word (CHR ''<'')" by simp
  then show False by (simp add: is_word_def)
qed

lemma is_word_not_comma: "is_word c \<Longrightarrow> c \<noteq> CHR '',''"
proof
  assume w: "is_word c" and "c = CHR '',''"
  then have "is_word (CHR '','')" by simp
  then show False by (simp add: is_word_def)
qed

lemma is_word_underscore: "is_word CHR ''_''"
  by (simp add: is_word_def)

lemma rmatch_suffix: "rmatch ts s = Some (ms, r) \<Longrightarrow> suffix r s"
proof (induction ts arbitrary: s ms r)
  case Nil
  then show ?case by simp
next
  case (Cons t ts)
  show ?case
  proof (cases t)
    case (Str l)
    from Cons.prems have "rmatch (Str l # ts) s = Some (ms, r)" by (simp only: Str)
    then obtain s' where "s = l @ s'" "rmatch ts s' = Some (ms, r)"
      by (rule rmatch_Str_E)
    with Cons.IH show ?thesis by (auto intro: suffix_appendI)
  next
    case (Star c)
    from Cons.prems have "rmatch (Star c # ts) s = Some (ms, r)" by (simp only: Star)
    then obtain u s' where "s = u @ s'" "rmatch ts s' = Some (ms, r)"
      by (rule rmatch_Star_E)
    with Cons.IH show ?thesis by (auto intro: suffix_appendI)
  next
    case (Plus c)
    from Cons.prems have "rmatch (Plus c # ts) s = Some (ms, r)" by (simp only: Plus)
    then obtain u s' where "s = u @ s'" "rmatch ts s' = Some (ms, r)"
      by (rule rmatch_Plus_E)
    with Cons.IH show ?thesis by (auto intro: suffix_appendI)
  next
    case GOpen
    from Cons.prems have "rmatch (GOpen # ts) s = Some (ms, r)" by (simp only: GOpen)
    then obtain ms' where "rmatch ts s = Some (ms', r)"
      by (rule rmatch_GOpen_E)
    with Cons.IH show ?thesis by blast
  next
    case GClose
    from Cons.prems have "rmatch (GClose # ts) s = Some (ms, r)" by (simp only: GClose)
    then obtain ms' where "rmatch ts s = Some (ms', r)"
      by (rule rmatch_GClose_E)
    with Cons.IH show ?thesis by blast
  qed
qed

lemma re_findall_None_Cons:
  "rmatch ts (x # xs) = None \<Longrightarrow> re_findall ts (x # xs) = re_findall ts xs"
  by (subst re_findall.simps) simp

lemma re_findall_None_Nil:
  "rmatch ts [] = None \<Longrightarrow> re_findall ts [] = []"
  by (subst re_findall.simps) simp

lemma re_findall_Some:
  "rmatch ts s = Some (ms, r) \<Longrightarrow> length r < length s \<Longrightarrow>
     re_findall ts s = groups2 ms # re_findall ts r"
  by (subst re_findall.simps) simp

lemma re_findall_Some_stuck:
  "rmatch ts s = Some (ms, r) \<Longrightarrow> \<not> length r < length s \<Longrightarrow>
     re_findall ts s = groups2 ms # (case s of [] \<Rightarrow> [] | x # xs \<Rightarrow> re_findall ts xs)"
  by (subst re_findall.simps) simp

lemma re_findall_mem:
  "p \<in> set (re_findall ts s) \<Longrightarrow>
     \<exists>u ms r. suffix u s \<and> rmatch ts u = Some (ms, r) \<and> p = groups2 ms"
proof (induction s rule: length_induct)
  case (1 s)
  have IH: "\<And>t. length t < length s \<Longrightarrow> suffix t s \<Longrightarrow> p \<in> set (re_findall ts t) \<Longrightarrow>
              \<exists>u ms r. suffix u s \<and> rmatch ts u = Some (ms, r) \<and> p = groups2 ms"
  proof -
    fix t assume "length t < length s" "suffix t s" "p \<in> set (re_findall ts t)"
    with 1 obtain u ms r where "suffix u t" "rmatch ts u = Some (ms, r)" "p = groups2 ms"
      by blast
    with \<open>suffix t s\<close> show "\<exists>u ms r. suffix u s \<and> rmatch ts u = Some (ms, r) \<and> p = groups2 ms"
      using suffix_order.trans by blast
  qed
  have tl: "\<And>x xs. s = x # xs \<Longrightarrow> p \<in> set (re_findall ts xs) \<Longrightarrow>
              \<exists>u ms r. suffix u s \<and> rmatch ts u = Some (ms, r) \<and> p = groups2 ms"
    by (rule IH) (auto intro: suffix_ConsI)
  show ?case
  proof (cases "rmatch ts s")
    case None
    show ?thesis
    proof (cases s)
      case Nil
      with None "1.prems" show ?thesis by (simp add: re_findall_None_Nil)
    next
      case (Cons x xs)
      with None "1.prems" have "p \<in> set (re_findall ts xs)"
        by (simp add: re_findall_None_Cons)
      with Cons show ?thesis by (rule tl)
    qed
  next
    case (Some res)
    obtain ms r where res: "rmatch ts s = Some (ms, r)"
      using Some by (cases res) simp
    show ?thesis
    proof (cases "p = groups2 ms")
      case True
      with res show ?thesis by blast
    next
      case False
      show ?thesis
      proof (cases "length r < length s")
        case True
        with False res "1.prems" have "p \<in> set (re_findall ts r)"
          by (simp add: re_findall_Some)
        moreover have "suffix r s" using res by (rule rmatch_suffix)
        ultimately show ?thesis using True by (blast intro: IH)
      next
        case F: False
        show ?thesis
        proof (cases s)
          case Nil
          with False res "1.prems" F show ?thesis
            by (simp add: re_findall_Some_stuck)
        next
          case (Cons x xs)
          with False res "1.prems" F have "p \<in> set (re_findall ts xs)"
            by (simp add: re_findall_Some_stuck)
          with Cons show ?thesis by (rule tl)
        qed
      qed
    qed
  qed
qed

lemma re_findall_Nil_D:
  "re_findall ts s = [] \<Longrightarrow> suffix u s \<Longrightarrow> rmatch ts u = None"
proof (induction s)
  case Nil
  have "rmatch ts [] = None"
  proof (cases "rmatch ts []")
    case (Some res)
    obtain ms r where "rmatch ts [] = Some (ms, r)" using Some by (cases res) simp
    then have "re_findall ts [] \<noteq> []" by (simp add: re_findall_Some_stuck)
    with Nil show ?thesis by simp
  qed simp
  with Nil show ?case by simp
next
  case (Cons x xs)
  have n: "rmatch ts (x # xs) = None"
  proof (cases "rmatch ts (x # xs)")
    case (Some res)
    obtain ms r where m: "rmatch ts (x # xs) = Some (ms, r)" using Some by (cases res) simp
    have "re_findall ts (x # xs) \<noteq> []"
      by (cases "length r < length (x # xs)")
         (simp_all only: re_findall_Some [OF m] re_findall_Some_stuck [OF m] list.simps not_False_eq_True)
    with Cons.prems show ?thesis by simp
  qed simp
  with Cons.prems(1) have "re_findall ts xs = []" by (simp add: re_findall_None_Cons)
  with Cons n show ?case
    by (auto simp: suffix_Cons)
qed

subsection \<open>The pattern and the indent\<close>

lemma in_class_Name_not_newline: "in_class Name c \<Longrightarrow> c \<noteq> CHR 0x0A"
  using is_word_not_newline [of c] by auto

lemma row_fragment_0_single_line:
  assumes "CHR 0x0A \<notin> set h" "CHR 0x0A \<notin> set n" "\<forall>x\<in>set i. is_word x"
    "\<forall>x\<in>set l. in_class Name x"
  shows "CHR 0x0A \<notin> set (row_fragment 0 h n i l)"
proof -
  from assms(3) have "CHR 0x0A \<notin> set i" using is_word_not_newline by blast
  moreover from assms(4) have "CHR 0x0A \<notin> set l" using in_class_Name_not_newline by blast
  ultimately show ?thesis using assms(1,2) by (simp add: row_fragment_def)
qed

lemma matches_of_shape:
  assumes "(i, l) \<in> set (matches_of contents k)"
  shows "\<exists>a b. i = a @ ''_'' @ b \<and> a \<noteq> [] \<and> b \<noteq> []
           \<and> (\<forall>x\<in>set a. is_word x) \<and> (\<forall>x\<in>set b. is_word x)
           \<and> l \<noteq> [] \<and> (\<forall>x\<in>set l. in_class Name x)"
proof -
  from assms obtain u ms r where
    m: "rmatch (row_pattern k) u = Some (ms, r)" and g: "(i, l) = groups2 ms"
    unfolding matches_of_def using re_findall_mem by blast
  from row_match_D [OF m] obtain a b l' where
    gm: "groups2 ms = (a @ ''_'' @ b, l')" and
    f: "a \<noteq> []" "b \<noteq> []" "\<forall>x\<in>set a. is_word x" "\<forall>x\<in>set b. is_word x"
      "l' \<noteq> []" "\<forall>x\<in>set l'. in_class Name x"
    by blast
  from g gm have "i = a @ ''_'' @ b" "l = l'" by simp_all
  with f show ?thesis by blast
qed

lemma row_pattern_0_prefix:
  assumes "rmatch (row_pattern 0) s = Some res"
  shows "prefix ''<tr><td>'' s"
proof -
  from assms obtain s' where \<open>s = ''<tr><td><a href="variables/'' @ s'\<close>
    unfolding row_pattern_0 by (rule rmatch_Str_E)
  then show ?thesis by simp
qed

lemma row_pattern_0_skip:
  "\<not> prefix ''<tr><td>'' (x # xs) \<Longrightarrow>
     re_findall (row_pattern 0) (x # xs) = re_findall (row_pattern 0) xs"
proof (rule re_findall_None_Cons)
  assume "\<not> prefix ''<tr><td>'' (x # xs)"
  then show "rmatch (row_pattern 0) (x # xs) = None"
    using row_pattern_0_prefix [of "x # xs"] by (cases "rmatch (row_pattern 0) (x # xs)") auto
qed

lemma row_pattern_0_skip_free:
  "CHR ''<'' \<notin> set h \<Longrightarrow>
     re_findall (row_pattern 0) (h @ s) = re_findall (row_pattern 0) s"
  by (induction h) (simp_all add: row_pattern_0_skip)

lemma row_pattern_0_Nil: "re_findall (row_pattern 0) [] = []"
proof (rule re_findall_None_Nil)
  show "rmatch (row_pattern 0) [] = None"
    using row_pattern_0_prefix [of "[]"] by (cases "rmatch (row_pattern 0) []") auto
qed

lemma indented_row_not_matched_at_0:
  assumes "k \<noteq> 0" "CHR ''<'' \<notin> set h" "CHR ''<'' \<notin> set n" "CHR ''<'' \<notin> set i"
    "CHR ''<'' \<notin> set l"
  shows "matches_of (row_fragment k h n i l) 0 = []"
proof -
  have sp: "CHR ''<'' \<notin> set (replicate (nat k) CHR '' '')" by simp
  note free = row_pattern_0_skip_free [OF sp] row_pattern_0_skip_free [OF assms(2)]
    row_pattern_0_skip_free [OF assms(3)] row_pattern_0_skip_free [OF assms(4)]
    row_pattern_0_skip_free [OF assms(5)]
  show ?thesis
    unfolding matches_of_def row_fragment_def Let_def
    using assms(1)
    by (simp add: row_pattern_0_skip free row_pattern_0_Nil)
qed

text \<open>
  Claim C6. The pattern depends on the indent exactly. (1) Whatever the pattern for
  indent 0 matches contains no line feed. (2) A row written with a line feed and a
  non-zero number of spaces before each of its two cells (cell texts and attribute values without
  \<^verbatim>\<open><\<close>) is matched by the pattern for indent 0 at no position, so nothing is
  extracted from it. (3) Whatever the pattern for an indent \<open>j > 0\<close> matches has, before
  each of the two cells, a line feed followed by exactly \<open>j\<close> space characters.
\<close>

theorem row_pattern_indent_sensitive:
  \<open>(rmatch (row_pattern 0) s = Some (ms, r) \<longrightarrow> (\<exists>w. s = w @ r \<and> CHR 0x0A \<notin> set w))
   \<and> (k \<noteq> 0 \<and> CHR ''<'' \<notin> set h \<and> CHR ''<'' \<notin> set n \<and> CHR ''<'' \<notin> set i \<and> CHR ''<'' \<notin> set l
        \<longrightarrow> matches_of (row_fragment k h n i l) 0 = []
          \<and> (\<forall>u. suffix u (row_fragment k h n i l) \<longrightarrow> rmatch (row_pattern 0) u = None))
   \<and> (0 < j \<and> rmatch (row_pattern j) s' = Some (ms', r')
        \<longrightarrow> (\<exists>h' n' i' l'.
               s' = ''<tr>'' @ [CHR 0x0A] @ replicate (nat j) CHR '' ''
                      @ ''<td><a href="variables/'' @ h' @ ''" name="'' @ n' @ ''">'' @ i'
                      @ ''</a></td>'' @ [CHR 0x0A] @ replicate (nat j) CHR '' ''
                      @ ''<td>'' @ l' @ ''</td>'' @ r'
             \<and> groups2 ms' = (i', l')))\<close>
proof (intro conjI impI)
  assume m: "rmatch (row_pattern 0) s = Some (ms, r)"
  from row_match_D [OF m] obtain h n a b l where
    s: "s = row_fragment 0 h n (a @ ''_'' @ b) l @ r" and
    f: "CHR 0x0A \<notin> set h" "CHR 0x0A \<notin> set n" "\<forall>x\<in>set a. is_word x" "\<forall>x\<in>set b. is_word x"
       "\<forall>x\<in>set l. in_class Name x"
    by blast
  from f(3,4) have "\<forall>x\<in>set (a @ ''_'' @ b). is_word x"
    by (auto simp: is_word_underscore)
  with f have "CHR 0x0A \<notin> set (row_fragment 0 h n (a @ ''_'' @ b) l)"
    by (intro row_fragment_0_single_line)
  with s show "\<exists>w. s = w @ r \<and> CHR 0x0A \<notin> set w" by blast
next
  assume a: "k \<noteq> 0 \<and> CHR ''<'' \<notin> set h \<and> CHR ''<'' \<notin> set n \<and> CHR ''<'' \<notin> set i \<and> CHR ''<'' \<notin> set l"
  then show e: "matches_of (row_fragment k h n i l) 0 = []"
    by (intro indented_row_not_matched_at_0) simp_all
  show "\<forall>u. suffix u (row_fragment k h n i l) \<longrightarrow> rmatch (row_pattern 0) u = None"
    using e re_findall_Nil_D unfolding matches_of_def by blast
next
  assume a: "0 < j \<and> rmatch (row_pattern j) s' = Some (ms', r')"
  then have m: "rmatch (row_pattern j) s' = Some (ms', r')" and j: "j \<noteq> 0" by simp_all
  from row_match_D [OF m] obtain h n a b l where
    s: "s' = row_fragment j h n (a @ ''_'' @ b) l @ r'" and
    g: "groups2 ms' = (a @ ''_'' @ b, l)"
    by blast
  from s j have \<open>s' = ''<tr>'' @ [CHR 0x0A] @ replicate (nat j) CHR '' ''
                      @ ''<td><a href="variables/'' @ h @ ''" name="'' @ n @ ''">'' @ (a @ ''_'' @ b)
                      @ ''</a></td>'' @ [CHR 0x0A] @ replicate (nat j) CHR '' ''
                      @ ''<td>'' @ l @ ''</td>'' @ r'\<close>
    by (simp add: row_fragment_def)
  with g show \<open>\<exists>h' n' i' l'.
               s' = ''<tr>'' @ [CHR 0x0A] @ replicate (nat j) CHR '' ''
                      @ ''<td><a href="variables/'' @ h' @ ''" name="'' @ n' @ ''">'' @ i'
                      @ ''</a></td>'' @ [CHR 0x0A] @ replicate (nat j) CHR '' ''
                      @ ''<td>'' @ l' @ ''</td>'' @ r'
             \<and> groups2 ms' = (i', l')\<close>
    by blast
qed

theorem row_pattern_indent_sensitive_witness:
  \<open>(\<exists>ms. rmatch (row_pattern 0)
            (row_fragment 0 ''B01001_001.json'' ''B01001_001'' ''B01001_001'' ''Estimate!!Total'' @ ''</tr>'')
          = Some (ms, ''</tr>'')
       \<and> (\<exists>w. row_fragment 0 ''B01001_001.json'' ''B01001_001'' ''B01001_001'' ''Estimate!!Total'' @ ''</tr>''
                = w @ ''</tr>'' \<and> CHR 0x0A \<notin> set w))
   \<and> matches_of (row_fragment 0 ''B01001_001.json'' ''B01001_001'' ''B01001_001'' ''Estimate!!Total'') 0
        = [(''B01001_001'', ''Estimate!!Total'')]
   \<and> matches_of (row_fragment 2 ''B01001_001.json'' ''B01001_001'' ''B01001_001'' ''Estimate!!Total'') 0
        = []
   \<and> matches_of (row_fragment 2 ''B01001_001.json'' ''B01001_001'' ''B01001_001'' ''Estimate!!Total'') 2
        = [(''B01001_001'', ''Estimate!!Total'')]
   \<and> matches_of (''<tr>'' @ [CHR 0x0A, CHR 0x09] @ ''<td><a href="variables/B01001_001.json" name="B01001_001">B01001_001</a></td>''
                   @ [CHR 0x0A, CHR 0x09] @ ''<td>Estimate!!Total</td>'') 1 = []
   \<and> (\<exists>ms. rmatch (row_pattern 2)
            (row_fragment 2 ''B01001_001.json'' ''B01001_001'' ''B01001_001'' ''Estimate!!Total'' @ ''</tr>'')
          = Some (ms, ''</tr>'')
       \<and> (\<exists>h' n' i' l'.
             row_fragment 2 ''B01001_001.json'' ''B01001_001'' ''B01001_001'' ''Estimate!!Total'' @ ''</tr>''
               = ''<tr>'' @ [CHR 0x0A] @ replicate (nat 2) CHR '' ''
                      @ ''<td><a href="variables/'' @ h' @ ''" name="'' @ n' @ ''">'' @ i'
                      @ ''</a></td>'' @ [CHR 0x0A] @ replicate (nat 2) CHR '' ''
                      @ ''<td>'' @ l' @ ''</td>'' @ ''</tr>''
           \<and> groups2 ms = (i', l')))\<close>
proof -
  let ?h = "''B01001_001.json''" and ?n = "''B01001_001''" and ?l = "''Estimate!!Total''"
  let ?x0 = "row_fragment 0 ?h ?n ?n ?l @ ''</tr>''"
  let ?x2 = "row_fragment 2 ?h ?n ?n ?l @ ''</tr>''"
  have "map_option snd (rmatch (row_pattern 0) ?x0) = Some ''</tr>''"
    by code_simp
  then obtain ms0 where m0: "rmatch (row_pattern 0) ?x0 = Some (ms0, ''</tr>'')"
    by (cases "rmatch (row_pattern 0) ?x0") auto
  have b: "\<exists>w. ?x0 = w @ ''</tr>'' \<and> CHR 0x0A \<notin> set w"
    by (rule row_pattern_indent_sensitive [where s = ?x0 and ms = ms0 and r = "''</tr>''",
          THEN conjunct1, THEN mp, OF m0])
  have c: "matches_of (row_fragment 0 ?h ?n ?n ?l) 0 = [(?n, ?l)]"
    by code_simp
  have hyp: "(2::int) \<noteq> 0 \<and> CHR ''<'' \<notin> set ?h \<and> CHR ''<'' \<notin> set ?n \<and> CHR ''<'' \<notin> set ?n
          \<and> CHR ''<'' \<notin> set ?l"
    by simp
  have d: "matches_of (row_fragment 2 ?h ?n ?n ?l) 0 = []"
    by (rule row_pattern_indent_sensitive [where k = 2 and h = ?h and n = ?n and i = ?n and l = ?l,
          THEN conjunct2, THEN conjunct1, THEN mp, OF hyp, THEN conjunct1])
  have e: "matches_of (row_fragment 2 ?h ?n ?n ?l) 2 = [(?n, ?l)]"
    by code_simp
  have f: \<open>matches_of (''<tr>'' @ [CHR 0x0A, CHR 0x09] @ ''<td><a href="variables/B01001_001.json" name="B01001_001">B01001_001</a></td>''
                   @ [CHR 0x0A, CHR 0x09] @ ''<td>Estimate!!Total</td>'') 1 = []\<close>
    by code_simp
  have "map_option snd (rmatch (row_pattern 2) ?x2) = Some ''</tr>''"
    by code_simp
  then obtain ms2 where m2: "rmatch (row_pattern 2) ?x2 = Some (ms2, ''</tr>'')"
    by (cases "rmatch (row_pattern 2) ?x2") auto
  have hyp2: "(0::int) < 2 \<and> rmatch (row_pattern 2) ?x2 = Some (ms2, ''</tr>'')"
    using m2 by simp
  note h = row_pattern_indent_sensitive [where j = 2 and s' = ?x2 and ms' = ms2 and r' = "''</tr>''",
          THEN conjunct2, THEN conjunct2, THEN mp, OF hyp2]
  show ?thesis
    by (intro conjI exI [of _ ms0] exI [of _ ms2] m0 b c d e f m2 h)
qed

section \<open>The CSV emitter\<close>

lemma py_split_no_sep: "c \<notin> set s \<Longrightarrow> py_split c s = [s]"
  by (induction s) auto

lemma py_split_not_Nil: "py_split c s \<noteq> []"
  by (induction s) (auto split: list.splits)

lemma length_py_split: "length (py_split c s) = count_list s c + 1"
  by (induction s) (auto simp: py_split_not_Nil split: list.splits)

lemma py_split_once:
  "count_list s c = 1 \<Longrightarrow>
     py_split c s = [takeWhile (\<lambda>x. x \<noteq> c) s, tl (dropWhile (\<lambda>x. x \<noteq> c) s)]"
proof (induction s)
  case Nil
  then show ?case by simp
next
  case (Cons x xs)
  show ?case
  proof (cases "x = c")
    case True
    with Cons.prems have "count_list xs c = 0" by simp
    then have "c \<notin> set xs" by (simp add: count_list_0_iff)
    with True show ?thesis by (simp add: py_split_no_sep)
  next
    case False
    with Cons show ?thesis by simp
  qed
qed

lemma group_subgroup_join:
  "CHR ''_'' \<in> set i \<Longrightarrow> group_part i @ ''_'' @ subgroup_part i = i"
proof -
  assume a: "CHR ''_'' \<in> set i"
  then have "dropWhile (\<lambda>c. c \<noteq> CHR ''_'') i \<noteq> []" by simp
  moreover have "hd (dropWhile (\<lambda>c. c \<noteq> CHR ''_'') i) = CHR ''_''"
    using a hd_dropWhile [of "\<lambda>c. c \<noteq> CHR ''_''" i] by auto
  ultimately have "dropWhile (\<lambda>c. c \<noteq> CHR ''_'') i = CHR ''_'' # subgroup_part i"
    unfolding subgroup_part_def by (cases "dropWhile (\<lambda>c. c \<noteq> CHR ''_'') i") auto
  then have "group_part i @ ''_'' @ subgroup_part i
               = takeWhile (\<lambda>c. c \<noteq> CHR ''_'') i @ dropWhile (\<lambda>c. c \<noteq> CHR ''_'') i"
    by (simp add: group_part_def)
  then show ?thesis by simp
qed

lemma write_rows_eq:
  "fs fn = Some c \<Longrightarrow>
     write_rows ms fn fs =
       (if list_all two_parts ms then Inr () else Inl ValueError,
        fs(fn \<mapsto> c @ concat (map csv_line (takeWhile two_parts ms))))"
proof (induction ms arbitrary: fs c)
  case Nil
  then show ?case by (simp add: fun_upd_idem)
next
  case (Cons m ms)
  obtain i n where m: "m = (i, n)" by (cases m)
  show ?case
  proof (cases "count_list i CHR ''_'' = 1")
    case True
    let ?line = "group_part i @ '','' @ subgroup_part i @ '','' @ to_name_path n @ [CHR 0x0A]"
    have sp: "py_split CHR ''_'' i = [group_part i, subgroup_part i]"
      using py_split_once [OF True] by (simp add: group_part_def subgroup_part_def)
    have w: "f_write fn ?line fs fn = Some (c @ ?line)"
      using Cons.prems by (simp add: f_write_def)
    have "write_rows (m # ms) fn fs = write_rows ms fn (f_write fn ?line fs)"
      by (simp add: m sp)
    also have "\<dots> = (if list_all two_parts ms then Inr () else Inl ValueError,
        (f_write fn ?line fs)(fn \<mapsto> (c @ ?line) @ concat (map csv_line (takeWhile two_parts ms))))"
      by (rule Cons.IH [of "f_write fn ?line fs" "c @ ?line", OF w])
    finally have step: "write_rows (m # ms) fn fs =
        (if list_all two_parts ms then Inr () else Inl ValueError,
         (f_write fn ?line fs)(fn \<mapsto> (c @ ?line) @ concat (map csv_line (takeWhile two_parts ms))))" .
    have t: "two_parts m" using True by (simp add: m two_parts_def)
    have l: "csv_line m = ?line" by (simp add: m csv_line_def)
    have u: "\<And>X. (f_write fn ?line fs)(fn \<mapsto> X) = fs(fn \<mapsto> X)"
      by (simp add: f_write_def)
    show ?thesis
      unfolding step using t l u by (auto simp: fun_upd_def)
  next
    case False
    then have "length (py_split CHR ''_'' i) \<noteq> 2" by (simp add: length_py_split)
    then have "write_rows (m # ms) fn fs = (Inl ValueError, fs)"
      by (auto simp: m split: list.splits)
    with False Cons.prems show ?thesis
      by (simp add: m two_parts_def fun_upd_idem)
  qed
qed

lemma write_csv_eq:
  "write_csv ms fn fs =
     (if list_all two_parts ms then Inr () else Inl ValueError,
      fs(fn \<mapsto> ''group,variable,path'' @ [CHR 0x0A] @ concat (map csv_line (takeWhile two_parts ms))))"
proof -
  let ?fs = "f_write fn (csv_header @ [CHR 0x0A]) (open_w fn fs)"
  have "?fs fn = Some (''group,variable,path'' @ [CHR 0x0A])"
    by (simp add: f_write_def open_w_def csv_header_def)
  from write_rows_eq [of ?fs fn "''group,variable,path'' @ [CHR 0x0A]" ms, OF this] show ?thesis
    by (simp add: write_csv_def f_write_def open_w_def)
qed

lemma list_all_two_parts:
  "list_all two_parts ms \<longleftrightarrow> (\<forall>(i, n) \<in> set ms. count_list i CHR ''_'' = 1)"
  by (auto simp: list_all_iff two_parts_def)

lemma takeWhile_all: "list_all P xs \<Longrightarrow> takeWhile P xs = xs"
  by (induction xs) auto

lemma takeWhile_shorter: "\<not> list_all P xs \<Longrightarrow> length (takeWhile P xs) < length xs"
  by (induction xs) auto

text \<open>
  Claim C3. When every identifier has exactly one underscore, \<open>write_csv\<close> succeeds and
  leaves at the destination the header line \<^verbatim>\<open>group,variable,path\<close> followed by one
  line per record, in order: the two parts of the identifier and the normalized label,
  joined by commas without quoting and ended by a line feed; the two parts joined by
  an underscore give the identifier back.
\<close>

theorem write_csv_format:
  assumes "\<forall>(i, n) \<in> set ms. count_list i CHR ''_'' = 1"
  shows "write_csv ms fn fs =
           (Inr (),
            fs(fn \<mapsto> ''group,variable,path'' @ [CHR 0x0A]
                  @ concat (map (\<lambda>(i, n). group_part i @ '','' @ subgroup_part i @ '',''
                                            @ to_name_path n @ [CHR 0x0A]) ms)))
       \<and> (\<forall>(i, n) \<in> set ms. group_part i @ ''_'' @ subgroup_part i = i)"
proof
  from assms have a: "list_all two_parts ms" by (simp add: list_all_two_parts)
  have c: "csv_line = (\<lambda>(i, n). group_part i @ '','' @ subgroup_part i @ '',''
                                            @ to_name_path n @ [CHR 0x0A])"
    by (simp add: csv_line_def)
  show "write_csv ms fn fs =
           (Inr (),
            fs(fn \<mapsto> ''group,variable,path'' @ [CHR 0x0A]
                  @ concat (map (\<lambda>(i, n). group_part i @ '','' @ subgroup_part i @ '',''
                                            @ to_name_path n @ [CHR 0x0A]) ms)))"
    unfolding write_csv_eq [of ms fn fs] takeWhile_all [OF a] c using a by simp
  show "\<forall>(i, n) \<in> set ms. group_part i @ ''_'' @ subgroup_part i = i"
  proof (intro ballI, clarify)
    fix i n assume "(i, n) \<in> set ms"
    with assms have "count_list i CHR ''_'' = 1" by blast
    then have "CHR ''_'' \<in> set i" using count_list_0_iff [of i "CHR ''_''"] by auto
    then show "group_part i @ ''_'' @ subgroup_part i = i" by (rule group_subgroup_join)
  qed
qed

theorem write_csv_format_witness:
  "count_list ''B01001_001'' CHR ''_'' = 1 \<and> count_list ''B01001_002'' CHR ''_'' = 1
   \<and> fst (write_csv [(''B01001_001'', ''Estimate!!Total''), (''B01001_002'', ''Estimate!!Male'')]
           ''acs.csv'' Map.empty) = Inr ()
   \<and> snd (write_csv [(''B01001_001'', ''Estimate!!Total''), (''B01001_002'', ''Estimate!!Male'')]
           ''acs.csv'' Map.empty) ''acs.csv''
       = Some ''group,variable,path\<newline>B01001,001,estimate.total\<newline>B01001,002,estimate.male\<newline>''
   \<and> group_part ''B01001_002'' @ ''_'' @ subgroup_part ''B01001_002'' = ''B01001_002''"
proof -
  let ?ms = "[(''B01001_001'', ''Estimate!!Total''), (''B01001_002'', ''Estimate!!Male'')]"
  have h: "\<forall>(i, n) \<in> set ?ms. count_list i CHR ''_'' = 1"
    by simp
  note t = write_csv_format [OF h, of "''acs.csv''" Map.empty]
  have v: "''group,variable,path'' @ [CHR 0x0A]
             @ concat (map (\<lambda>(i, n). group_part i @ '','' @ subgroup_part i @ '',''
                                            @ to_name_path n @ [CHR 0x0A]) ?ms)
           = ''group,variable,path\<newline>B01001,001,estimate.total\<newline>B01001,002,estimate.male\<newline>''"
    by code_simp
  have a: "fst (write_csv ?ms ''acs.csv'' Map.empty) = Inr ()"
    by (simp only: t [THEN conjunct1] fst_conv)
  have b: "snd (write_csv ?ms ''acs.csv'' Map.empty) ''acs.csv''
       = Some ''group,variable,path\<newline>B01001,001,estimate.total\<newline>B01001,002,estimate.male\<newline>''"
    by (simp only: t [THEN conjunct1] snd_conv v fun_upd_same)
  have c: "group_part ''B01001_002'' @ ''_'' @ subgroup_part ''B01001_002'' = ''B01001_002''"
    using t [THEN conjunct2] by simp
  have h': "count_list ''B01001_001'' CHR ''_'' = 1" "count_list ''B01001_002'' CHR ''_'' = 1"
    by simp_all
  from h' a b c show ?thesis by (intro conjI)
qed

lemma write_csv_fails_iff:
  "(\<exists>e. fst (write_csv ms fn fs) = Inl e) \<longleftrightarrow> \<not> list_all two_parts ms"
  by (simp add: write_csv_eq)

text \<open>
  Claim C8. \<open>write_csv\<close> raises exactly when some identifier does not split at its
  underscores into two parts, that is when its number of underscores is not one; an
  identifier the extractor matched has at least one underscore, so for it this means more
  than one (the witness extracts such an identifier). When every identifier has exactly
  one underscore, \<open>write_csv\<close> does not raise.
\<close>

theorem write_csv_raises_iff:
  "((\<exists>e. fst (write_csv ms fn fs) = Inl e)
      \<longleftrightarrow> (\<exists>(i, n) \<in> set ms. length (py_split CHR ''_'' i) \<noteq> 2))
   \<and> (length (py_split CHR ''_'' j) \<noteq> 2 \<longleftrightarrow> count_list j CHR ''_'' \<noteq> 1)
   \<and> ((i', l') \<in> set (matches_of contents k)
        \<longrightarrow> (length (py_split CHR ''_'' i') \<noteq> 2 \<longleftrightarrow> 1 < count_list i' CHR ''_''))
   \<and> ((\<forall>(i, n) \<in> set ms. count_list i CHR ''_'' = 1) \<longrightarrow> fst (write_csv ms fn fs) = Inr ())"
proof (intro conjI impI)
  show "(\<exists>e. fst (write_csv ms fn fs) = Inl e)
      \<longleftrightarrow> (\<exists>(i, n) \<in> set ms. length (py_split CHR ''_'' i) \<noteq> 2)"
    unfolding write_csv_fails_iff list_all_two_parts
    by (auto simp: length_py_split)
  show "length (py_split CHR ''_'' j) \<noteq> 2 \<longleftrightarrow> count_list j CHR ''_'' \<noteq> 1"
    by (simp add: length_py_split)
next
  assume "(i', l') \<in> set (matches_of contents k)"
  from matches_of_shape [OF this] obtain a b where "i' = a @ ''_'' @ b" by blast
  then have "1 \<le> count_list i' CHR ''_''" by simp
  then show "length (py_split CHR ''_'' i') \<noteq> 2 \<longleftrightarrow> 1 < count_list i' CHR ''_''"
    by (auto simp: length_py_split)
next
  assume "\<forall>(i, n) \<in> set ms. count_list i CHR ''_'' = 1"
  then have "list_all two_parts ms" by (simp add: list_all_two_parts)
  then show "fst (write_csv ms fn fs) = Inr ()" by (simp add: write_csv_eq)
qed

theorem write_csv_raises_iff_witness:
  "matches_of (row_fragment 2 ''B01001_001_A.json'' ''B01001_001_A'' ''B01001_001_A'' ''Estimate'') 2
     = [(''B01001_001_A'', ''Estimate'')]
   \<and> (''B01001_001_A'', ''Estimate'')
        \<in> set (matches_of (row_fragment 2 ''B01001_001_A.json'' ''B01001_001_A'' ''B01001_001_A'' ''Estimate'') 2)
   \<and> 1 < count_list ''B01001_001_A'' CHR ''_''
   \<and> length (py_split CHR ''_'' ''B01001_001_A'') \<noteq> 2
   \<and> (\<exists>e. fst (write_csv [(''B01001_001_A'', ''Estimate'')] ''acs.csv'' Map.empty) = Inl e)
   \<and> count_list ''B01001_001'' CHR ''_'' = 1
   \<and> fst (write_csv [(''B01001_001'', ''Estimate!!Total'')] ''acs.csv'' Map.empty) = Inr ()"
proof -
  let ?doc = "row_fragment 2 ''B01001_001_A.json'' ''B01001_001_A'' ''B01001_001_A'' ''Estimate''"
  let ?bad = "[(''B01001_001_A'', ''Estimate'')]" and ?good = "[(''B01001_001'', ''Estimate!!Total'')]"
  have a: "matches_of ?doc 2 = ?bad"
    by code_simp
  then have b: "(''B01001_001_A'', ''Estimate'') \<in> set (matches_of ?doc 2)"
    by simp
  have c: "1 < count_list ''B01001_001_A'' CHR ''_''"
    by simp
  note t1 = write_csv_raises_iff [where i' = "''B01001_001_A''" and l' = "''Estimate''" and contents = ?doc
      and k = 2, THEN conjunct2, THEN conjunct2, THEN conjunct1, THEN mp, OF b]
  from t1 c have d: "length (py_split CHR ''_'' ''B01001_001_A'') \<noteq> 2"
    by (simp only: simp_thms)
  then have e: "\<exists>(i, n) \<in> set ?bad. length (py_split CHR ''_'' i) \<noteq> 2"
    by simp
  have f: "\<exists>e. fst (write_csv ?bad ''acs.csv'' Map.empty) = Inl e"
    using write_csv_raises_iff [where ms = ?bad and fn = "''acs.csv''" and fs = Map.empty, THEN conjunct1] e
    by (simp only: simp_thms)
  have g: "\<forall>(i, n) \<in> set ?good. count_list i CHR ''_'' = 1"
    by simp
  have h: "fst (write_csv ?good ''acs.csv'' Map.empty) = Inr ()"
    by (rule write_csv_raises_iff [where ms = ?good and fn = "''acs.csv''" and fs = Map.empty,
          THEN conjunct2, THEN conjunct2, THEN conjunct2, THEN mp, OF g])
  have g': "count_list ''B01001_001'' CHR ''_'' = 1"
    by simp
  from a b c d f g' h show ?thesis by (intro conjI)
qed

text \<open>
  Claim C9, as the specification states it, fails: after \<open>write_csv\<close> has raised on the
  second of two records, the destination holds the header and the line of the first.
\<close>

theorem write_csv_partial_file_counterexample:
  "fst (write_csv [(''B01001_001'', ''Estimate!!Total''), (''B01001_001_A'', ''Estimate!!Male'')]
          ''acs.csv'' Map.empty) = Inl ValueError
   \<and> snd (write_csv [(''B01001_001'', ''Estimate!!Total''), (''B01001_001_A'', ''Estimate!!Male'')]
          ''acs.csv'' Map.empty) ''acs.csv''
       = Some ''group,variable,path\<newline>B01001,001,estimate.total\<newline>''"
proof
  show "fst (write_csv [(''B01001_001'', ''Estimate!!Total''), (''B01001_001_A'', ''Estimate!!Male'')]
          ''acs.csv'' Map.empty) = Inl ValueError"
    by code_simp
  show "snd (write_csv [(''B01001_001'', ''Estimate!!Total''), (''B01001_001_A'', ''Estimate!!Male'')]
          ''acs.csv'' Map.empty) ''acs.csv''
       = Some ''group,variable,path\<newline>B01001,001,estimate.total\<newline>''"
    by code_simp
qed

text \<open>
  Claim C9, amended. When \<open>write_csv\<close> raises, the error is the \<^verbatim>\<open>ValueError\<close> of the
  unpacking, and the destination is left holding the header line followed by the lines
  of the records before the first one whose identifier does not have exactly one
  underscore; no other file is touched.
\<close>

theorem write_csv_abort_leaves_prefix:
  assumes "fst (write_csv ms fn fs) = Inl e"
  shows "e = ValueError
       \<and> snd (write_csv ms fn fs) =
           fs(fn \<mapsto> ''group,variable,path'' @ [CHR 0x0A]
                 @ concat (map (\<lambda>(i, n). group_part i @ '','' @ subgroup_part i @ '',''
                                           @ to_name_path n @ [CHR 0x0A])
                            (takeWhile (\<lambda>(i, n). count_list i CHR ''_'' = 1) ms)))
       \<and> length (takeWhile (\<lambda>(i, n). count_list i CHR ''_'' = 1) ms) < length ms"
proof -
  have c: "csv_line = (\<lambda>(i, n). group_part i @ '','' @ subgroup_part i @ '',''
                                            @ to_name_path n @ [CHR 0x0A])"
    by (simp add: csv_line_def)
  have t: "two_parts = (\<lambda>(i, n). count_list i CHR ''_'' = 1)"
    by (simp add: two_parts_def)
  from assms have n: "\<not> list_all two_parts ms"
    using write_csv_fails_iff by blast
  with assms have "e = ValueError" by (simp add: write_csv_eq)
  moreover have "snd (write_csv ms fn fs) =
           fs(fn \<mapsto> ''group,variable,path'' @ [CHR 0x0A]
                 @ concat (map csv_line (takeWhile two_parts ms)))"
    by (simp add: write_csv_eq)
  moreover have "length (takeWhile two_parts ms) < length ms"
    using n by (rule takeWhile_shorter)
  ultimately show ?thesis unfolding c t by blast
qed

theorem write_csv_abort_leaves_prefix_witness:
  "fst (write_csv [(''B01001_001'', ''Estimate!!Total''), (''B01001_001_A'', ''Estimate!!Male''),
                   (''B01001_003'', ''Estimate!!Female'')] ''acs.csv'' [''other'' \<mapsto> ''kept''])
     = Inl ValueError
   \<and> snd (write_csv [(''B01001_001'', ''Estimate!!Total''), (''B01001_001_A'', ''Estimate!!Male''),
                     (''B01001_003'', ''Estimate!!Female'')] ''acs.csv'' [''other'' \<mapsto> ''kept''])
       = [''other'' \<mapsto> ''kept'',
          ''acs.csv'' \<mapsto> ''group,variable,path\<newline>B01001,001,estimate.total\<newline>'']"
proof -
  let ?ms = "[(''B01001_001'', ''Estimate!!Total''), (''B01001_001_A'', ''Estimate!!Male''),
              (''B01001_003'', ''Estimate!!Female'')]"
  have a: "fst (write_csv ?ms ''acs.csv'' [''other'' \<mapsto> ''kept'']) = Inl ValueError"
    by code_simp
  note t = write_csv_abort_leaves_prefix [OF a]
  have v: "''group,variable,path'' @ [CHR 0x0A]
                 @ concat (map (\<lambda>(i, n). group_part i @ '','' @ subgroup_part i @ '',''
                                           @ to_name_path n @ [CHR 0x0A])
                            (takeWhile (\<lambda>(i, n). count_list i CHR ''_'' = 1) ?ms))
           = ''group,variable,path\<newline>B01001,001,estimate.total\<newline>''"
    by code_simp
  have b: "snd (write_csv ?ms ''acs.csv'' [''other'' \<mapsto> ''kept''])
       = [''other'' \<mapsto> ''kept'',
          ''acs.csv'' \<mapsto> ''group,variable,path\<newline>B01001,001,estimate.total\<newline>'']"
    by (simp only: t [THEN conjunct2, THEN conjunct1] v)
  from a b show ?thesis by (intro conjI)
qed

section \<open>The driver: exit status and overwrite policy\<close>

lemma run_no_matches:
  "fs (filename a) = Some contents \<Longrightarrow> matches_of contents (indent a) = [] \<Longrightarrow>
     run a fs = (Inr 1, fs, [Print ''no matches found in source file, check formatting'', PrintUsage])"
  by (simp add: run_def)

lemma main_guard_returns_0:
  "fst (run a fs) = Inr ret \<Longrightarrow> fst (main_guard a fs) = 0"
  by (cases "run a fs") (auto simp: main_guard_def)

lemma write_csv_other: "q \<noteq> p \<Longrightarrow> snd (write_csv ms p fs) q = fs q"
  by (simp add: write_csv_eq)

lemma write_csv_exists: "snd (write_csv ms p fs) p \<noteq> None"
  by (simp add: write_csv_eq)

lemma run_some:
  assumes "fs (filename a) = Some contents" "matches_of contents (indent a) \<noteq> []"
  shows "run a fs =
     (case emit_if (csv a) (overwrite a) (write_csv (matches_of contents (indent a))) fs of
        (Inl e, fs1) \<Rightarrow> (Inl e, fs1, [])
      | (Inr u, fs1) \<Rightarrow>
          (case emit_if (rs a) (overwrite a) (write_rust (matches_of contents (indent a))) fs1 of
             (Inl e, fs2) \<Rightarrow> (Inl e, fs2, [])
           | (Inr v, fs2) \<Rightarrow> (Inr 0, fs2, [])))"
  using assms by (simp add: run_def Let_def)

lemma run_no_overwrite_unchanged:
  assumes "fs d = Some old" "csv a = Some d \<or> rs a = Some d" "\<not> overwrite a"
  shows "fst (snd (run a fs)) d = fs d"
proof (cases "fs (filename a)")
  case None
  then show ?thesis by (simp add: run_def)
next
  case (Some contents)
  show ?thesis
  proof (cases "matches_of contents (indent a) = []")
    case True
    with Some show ?thesis by (simp add: run_no_matches)
  next
    case False
    show ?thesis
      unfolding run_some [of fs a contents, OF Some False]
      using assms
      by (auto simp: emit_if_def write_csv_eq write_rust_def f_write_def open_w_def
               split: option.splits)
  qed
qed

lemma emit_rust_eq:
  "emit_if t ov (write_rust ms) fs =
     (Inr (), case t of None \<Rightarrow> fs
              | Some q \<Rightarrow> if fs q = None \<or> ov then fs(q \<mapsto> codegen ms) else fs)"
  by (cases t) (simp_all add: emit_if_def write_rust_def f_write_def open_w_def)

lemma run_csv_ok:
  assumes "fs (filename a) = Some contents" "matches_of contents (indent a) \<noteq> []"
    "emit_if (csv a) (overwrite a) (write_csv (matches_of contents (indent a))) fs = (Inr (), fs1)"
  shows "run a fs =
     (Inr 0, (case rs a of None \<Rightarrow> fs1
              | Some q \<Rightarrow> if fs1 q = None \<or> overwrite a
                          then fs1(q \<mapsto> codegen (matches_of contents (indent a))) else fs1), [])"
  unfolding run_some [of fs a contents, OF assms(1,2)] assms(3) emit_rust_eq by simp

lemma run_csv_err:
  assumes "fs (filename a) = Some contents" "matches_of contents (indent a) \<noteq> []"
    "emit_if (csv a) (overwrite a) (write_csv (matches_of contents (indent a))) fs = (Inl e, fs1)"
  shows "run a fs = (Inl e, fs1, [])"
  unfolding run_some [of fs a contents, OF assms(1,2)] assms(3) by simp

lemma emit_csv_eq:
  "emit_if t ov (write_csv ms) fs =
     (case t of None \<Rightarrow> (Inr (), fs)
      | Some p \<Rightarrow>
          if fs p = None \<or> ov
          then (if list_all two_parts ms then Inr () else Inl ValueError,
                fs(p \<mapsto> ''group,variable,path'' @ [CHR 0x0A]
                        @ concat (map csv_line (takeWhile two_parts ms))))
          else (Inr (), fs))"
  by (cases t) (simp_all add: emit_if_def write_csv_eq)

lemma run_no_overwrite_returns_0:
  assumes "fs (filename a) = Some contents" "matches_of contents (indent a) \<noteq> []"
    "\<not> overwrite a"
    "\<forall>p. csv a = Some p \<and> fs p = None
        \<longrightarrow> (\<forall>(i, n) \<in> set (matches_of contents (indent a)). count_list i CHR ''_'' = 1)"
  shows "fst (run a fs) = Inr 0"
proof -
  let ?ms = "matches_of contents (indent a)"
  have "fst (emit_if (csv a) (overwrite a) (write_csv ?ms) fs) = Inr ()"
  proof (cases "csv a")
    case None
    then show ?thesis by (simp add: emit_csv_eq)
  next
    case (Some p)
    show ?thesis
    proof (cases "fs p = None")
      case True
      with Some assms(4) have "list_all two_parts ?ms" by (simp add: list_all_two_parts)
      with Some True show ?thesis by (simp add: emit_csv_eq)
    next
      case False
      with Some assms(3) show ?thesis by (simp add: emit_csv_eq)
    qed
  qed
  then obtain fs1 where "emit_if (csv a) (overwrite a) (write_csv ?ms) fs = (Inr (), fs1)"
    by (cases "emit_if (csv a) (overwrite a) (write_csv ?ms) fs") simp
  from run_csv_ok [of fs a contents fs1, OF assms(1,2) this] show ?thesis by simp
qed

lemma run_overwrite_replaces:
  assumes "fs (filename a) = Some contents" "matches_of contents (indent a) \<noteq> []"
    "overwrite a" "csv a = Some d \<or> rs a = Some d" "fst (run a fs) = Inr 0"
  shows "fst (snd (run a fs)) d =
           (if rs a = Some d then Some (codegen (matches_of contents (indent a)))
            else Some (''group,variable,path'' @ [CHR 0x0A]
                   @ concat (map (\<lambda>(i, n). group_part i @ '','' @ subgroup_part i @ '',''
                                            @ to_name_path n @ [CHR 0x0A])
                              (matches_of contents (indent a)))))"
proof -
  let ?ms = "matches_of contents (indent a)"
  have c: "csv_line = (\<lambda>(i, n). group_part i @ '','' @ subgroup_part i @ '',''
                                            @ to_name_path n @ [CHR 0x0A])"
    by (simp add: csv_line_def)
  obtain r1 fs1 where e: "emit_if (csv a) (overwrite a) (write_csv ?ms) fs = (r1, fs1)"
    by (cases "emit_if (csv a) (overwrite a) (write_csv ?ms) fs")
  have r1: "r1 = Inr ()"
  proof (cases r1)
    case (Inl err)
    with e run_csv_err [of fs a contents err fs1, OF assms(1,2)] have "fst (run a fs) = Inl err" by simp
    with assms(5) show ?thesis by simp
  qed simp
  note run = run_csv_ok [of fs a contents fs1, OF assms(1,2) e [unfolded r1]]
  show ?thesis
  proof (cases "rs a = Some d")
    case True
    with assms(3) show ?thesis unfolding run by simp
  next
    case False
    with assms(4) have cs: "csv a = Some d" by simp
    from e r1 cs assms(3) have all: "list_all two_parts ?ms"
      by (auto simp: emit_csv_eq split: if_splits)
    from e cs assms(3) all have fs1: "fs1 = fs(d \<mapsto> ''group,variable,path'' @ [CHR 0x0A]
                        @ concat (map csv_line ?ms))"
      by (simp add: emit_csv_eq takeWhile_all)
    have "fst (snd (run a fs)) d = fs1 d"
      unfolding run using False by (cases "rs a") auto
    with False show ?thesis unfolding fs1 c by simp
  qed
qed

text \<open>
  Claim C7 fails on the code at the exit status. For a source without rows and both
  targets requested, \<open>run\<close> prints the message and the usage, leaves every file as it
  was and returns 1, but the module ends with status 0, since the value \<open>run\<close>
  returns is dropped.
\<close>

theorem main_guard_exit_status_no_matches:
  "run \<lparr>filename = ''acs.html'', csv = Some ''acs.csv'', rs = Some ''acs.rs'', indent = 2,
         overwrite = True\<rparr>
       [''acs.html'' \<mapsto> ''<html><body>no table here</body></html>'']
     = (Inr 1, [''acs.html'' \<mapsto> ''<html><body>no table here</body></html>''],
        [Print ''no matches found in source file, check formatting'', PrintUsage])
   \<and> main_guard \<lparr>filename = ''acs.html'', csv = Some ''acs.csv'', rs = Some ''acs.rs'', indent = 2,
         overwrite = True\<rparr>
       [''acs.html'' \<mapsto> ''<html><body>no table here</body></html>'']
     = (0, [''acs.html'' \<mapsto> ''<html><body>no table here</body></html>''],
        [Print ''no matches found in source file, check formatting'', PrintUsage])"
proof -
  have m: "matches_of ''<html><body>no table here</body></html>'' 2 = []"
    by code_simp
  have r: "run \<lparr>filename = ''acs.html'', csv = Some ''acs.csv'', rs = Some ''acs.rs'', indent = 2,
         overwrite = True\<rparr>
       [''acs.html'' \<mapsto> ''<html><body>no table here</body></html>'']
     = (Inr 1, [''acs.html'' \<mapsto> ''<html><body>no table here</body></html>''],
        [Print ''no matches found in source file, check formatting'', PrintUsage])"
    using m
    by (intro run_no_matches [of _ _ "''<html><body>no table here</body></html>''"]) simp_all
  show ?thesis
    unfolding main_guard_def r by simp
qed

text \<open>
  Claim C10, as the specification states it, fails for a run that extracts nothing: with
  the overwrite flag the existing destination keeps its old content, and with or without
  the flag the run returns 1.
\<close>

theorem run_overwrite_no_matches_counterexample:
  "fst (run \<lparr>filename = ''acs.html'', csv = Some ''acs.csv'', rs = None, indent = 2,
              overwrite = True\<rparr>
            [''acs.html'' \<mapsto> ''<html><body>no table here</body></html>'',
             ''acs.csv'' \<mapsto> ''old'']) = Inr 1
   \<and> fst (snd (run \<lparr>filename = ''acs.html'', csv = Some ''acs.csv'', rs = None, indent = 2,
              overwrite = True\<rparr>
            [''acs.html'' \<mapsto> ''<html><body>no table here</body></html>'',
             ''acs.csv'' \<mapsto> ''old''])) ''acs.csv'' = Some ''old''
   \<and> fst (run \<lparr>filename = ''acs.html'', csv = Some ''acs.csv'', rs = None, indent = 2,
              overwrite = False\<rparr>
            [''acs.html'' \<mapsto> ''<html><body>no table here</body></html>'',
             ''acs.csv'' \<mapsto> ''old'']) = Inr 1"
proof -
  have m: "matches_of ''<html><body>no table here</body></html>'' 2 = []"
    by code_simp
  let ?fs = "[''acs.html'' \<mapsto> ''<html><body>no table here</body></html>'',
             ''acs.csv'' \<mapsto> ''old'']"
  have a: "run \<lparr>filename = ''acs.html'', csv = Some ''acs.csv'', rs = None, indent = 2,
              overwrite = True\<rparr> ?fs
            = (Inr 1, ?fs, [Print ''no matches found in source file, check formatting'', PrintUsage])"
    using m
    by (intro run_no_matches [of _ _ "''<html><body>no table here</body></html>''"]) simp_all
  have b: "run \<lparr>filename = ''acs.html'', csv = Some ''acs.csv'', rs = None, indent = 2,
              overwrite = False\<rparr> ?fs
            = (Inr 1, ?fs, [Print ''no matches found in source file, check formatting'', PrintUsage])"
    using m
    by (intro run_no_matches [of _ _ "''<html><body>no table here</body></html>''"]) simp_all
  show ?thesis
    unfolding a b by simp
qed

text \<open>
  Claim C10, amended. Let a requested destination exist. Without the overwrite flag its
  content is the same after the run, whatever else the run does; and if the source
  yields at least one record, the run returns 0 unless the CSV emitter has to write a
  file that does not exist yet and meets an identifier without exactly one underscore.
  With the overwrite flag, if the source yields at least one record and the run returns
  0, the content of the destination is the output of the emitter that wrote it last:
  the generated code if \<^verbatim>\<open>--rs\<close> names it, the CSV text otherwise.
\<close>

theorem run_overwrite_semantics:
  assumes "fs d = Some old" and "csv a = Some d \<or> rs a = Some d"
  shows "(\<not> overwrite a \<longrightarrow> fst (snd (run a fs)) d = Some old)
       \<and> (\<not> overwrite a \<and> fs (filename a) = Some contents
            \<and> matches_of contents (indent a) \<noteq> []
            \<and> (\<forall>p. csv a = Some p \<and> fs p = None
                  \<longrightarrow> (\<forall>(i, n) \<in> set (matches_of contents (indent a)). count_list i CHR ''_'' = 1))
          \<longrightarrow> fst (run a fs) = Inr 0)
       \<and> (overwrite a \<and> fs (filename a) = Some contents
            \<and> matches_of contents (indent a) \<noteq> [] \<and> fst (run a fs) = Inr 0
          \<longrightarrow> fst (snd (run a fs)) d =
                (if rs a = Some d then Some (codegen (matches_of contents (indent a)))
                 else Some (''group,variable,path'' @ [CHR 0x0A]
                   @ concat (map (\<lambda>(i, n). group_part i @ '','' @ subgroup_part i @ '',''
                                            @ to_name_path n @ [CHR 0x0A])
                              (matches_of contents (indent a))))))"
proof (intro conjI impI)
  assume "\<not> overwrite a"
  with assms show "fst (snd (run a fs)) d = Some old"
    using run_no_overwrite_unchanged [of fs d old a] by simp
next
  assume "\<not> overwrite a \<and> fs (filename a) = Some contents
            \<and> matches_of contents (indent a) \<noteq> []
            \<and> (\<forall>p. csv a = Some p \<and> fs p = None
                  \<longrightarrow> (\<forall>(i, n) \<in> set (matches_of contents (indent a)). count_list i CHR ''_'' = 1))"
  then show "fst (run a fs) = Inr 0"
    using run_no_overwrite_returns_0 [of fs a contents] by blast
next
  assume "overwrite a \<and> fs (filename a) = Some contents
            \<and> matches_of contents (indent a) \<noteq> [] \<and> fst (run a fs) = Inr 0"
  with assms(2) show "fst (snd (run a fs)) d =
                (if rs a = Some d then Some (codegen (matches_of contents (indent a)))
                 else Some (''group,variable,path'' @ [CHR 0x0A]
                   @ concat (map (\<lambda>(i, n). group_part i @ '','' @ subgroup_part i @ '',''
                                            @ to_name_path n @ [CHR 0x0A])
                              (matches_of contents (indent a)))))"
    using run_overwrite_replaces [of fs a contents d] by blast
qed

theorem run_overwrite_semantics_witness:
  "fst (snd (run \<lparr>filename = ''acs.html'', csv = Some ''acs.csv'', rs = Some ''acs.rs'', indent = 2,
                   overwrite = False\<rparr>
                 [''acs.html'' \<mapsto> row_fragment 2 ''B01001_001.json'' ''B01001_001'' ''B01001_001''
                                   ''Estimate!!Total'',
                  ''acs.csv'' \<mapsto> ''old''])) ''acs.csv'' = Some ''old''
   \<and> fst (run \<lparr>filename = ''acs.html'', csv = Some ''acs.csv'', rs = Some ''acs.rs'', indent = 2,
                   overwrite = False\<rparr>
                 [''acs.html'' \<mapsto> row_fragment 2 ''B01001_001.json'' ''B01001_001'' ''B01001_001''
                                   ''Estimate!!Total'',
                  ''acs.csv'' \<mapsto> ''old'']) = Inr 0
   \<and> fst (run \<lparr>filename = ''acs.html'', csv = Some ''acs.csv'', rs = Some ''acs.rs'', indent = 2,
                   overwrite = True\<rparr>
                 [''acs.html'' \<mapsto> row_fragment 2 ''B01001_001.json'' ''B01001_001'' ''B01001_001''
                                   ''Estimate!!Total'',
                  ''acs.csv'' \<mapsto> ''old'']) = Inr 0
   \<and> fst (snd (run \<lparr>filename = ''acs.html'', csv = Some ''acs.csv'', rs = Some ''acs.rs'', indent = 2,
                   overwrite = True\<rparr>
                 [''acs.html'' \<mapsto> row_fragment 2 ''B01001_001.json'' ''B01001_001'' ''B01001_001''
                                   ''Estimate!!Total'',
                  ''acs.csv'' \<mapsto> ''old''])) ''acs.csv''
       = Some ''group,variable,path\<newline>B01001,001,estimate.total\<newline>''"
proof -
  let ?doc = "row_fragment 2 ''B01001_001.json'' ''B01001_001'' ''B01001_001'' ''Estimate!!Total''"
  let ?fs = "[''acs.html'' \<mapsto> ?doc, ''acs.csv'' \<mapsto> ''old'']"
  let ?a = "\<lambda>ov. \<lparr>filename = ''acs.html'', csv = Some ''acs.csv'', rs = Some ''acs.rs'', indent = 2,
                   overwrite = ov\<rparr>"
  have m: "matches_of ?doc 2 = [(''B01001_001'', ''Estimate!!Total'')]"
    by code_simp
  have ex: "?fs ''acs.csv'' = Some ''old''" by simp
  have tg: "\<And>ov. csv (?a ov) = Some ''acs.csv'' \<or> rs (?a ov) = Some ''acs.csv''" by simp
  note t = run_overwrite_semantics [of ?fs "''acs.csv''" "''old''" "?a False" ?doc, OF ex tg]
  note u = run_overwrite_semantics [of ?fs "''acs.csv''" "''old''" "?a True" ?doc, OF ex tg]
  have h1: "\<not> overwrite (?a False)" by simp
  have h2: "\<not> overwrite (?a False) \<and> ?fs (filename (?a False)) = Some ?doc
            \<and> matches_of ?doc (indent (?a False)) \<noteq> []
            \<and> (\<forall>p. csv (?a False) = Some p \<and> ?fs p = None
                  \<longrightarrow> (\<forall>(i, n) \<in> set (matches_of ?doc (indent (?a False))). count_list i CHR ''_'' = 1))"
    by (simp add: m)
  have r0: "fst (run (?a True) ?fs) = Inr 0"
    by code_simp
  have h3: "overwrite (?a True) \<and> ?fs (filename (?a True)) = Some ?doc
            \<and> matches_of ?doc (indent (?a True)) \<noteq> [] \<and> fst (run (?a True) ?fs) = Inr 0"
    using r0 by (simp add: m)
  have v: "''group,variable,path'' @ [CHR 0x0A]
                   @ concat (map (\<lambda>(i, n). group_part i @ '','' @ subgroup_part i @ '',''
                                            @ to_name_path n @ [CHR 0x0A])
                              [(''B01001_001'', ''Estimate!!Total'')])
           = ''group,variable,path\<newline>B01001,001,estimate.total\<newline>''"
    by code_simp
  have a: "fst (snd (run (?a False) ?fs)) ''acs.csv'' = Some ''old''"
    by (rule t [THEN conjunct1, THEN mp, OF h1])
  have b: "fst (run (?a False) ?fs) = Inr 0"
    by (rule t [THEN conjunct2, THEN conjunct1, THEN mp, OF h2])
  have c: "fst (snd (run (?a True) ?fs)) ''acs.csv''
       = Some ''group,variable,path\<newline>B01001,001,estimate.total\<newline>''"
    using u [THEN conjunct2, THEN conjunct2, THEN mp, OF h3]
    by (simp only: args.simps m v option.inject list.inject char.inject simp_thms if_False)
  from a b r0 c show ?thesis by (intro conjI)
qed

section \<open>Several rows on one line\<close>

text \<open>
  Claim C1 fails on the code for indent 0, the setting for markup without line breaks.
  Two well-formed rows on one line give one record, not two: the greedy \<^verbatim>\<open>.*\<close> of the
  \<^verbatim>\<open>href\<close> attribute runs on to the last row of the line, so the one match starts at
  the first row and captures the identifier and the label of the second. Each row alone,
  and the two rows on separate lines, give the expected records.
\<close>

theorem matches_of_two_rows_on_one_line:
  \<open>matches_of ''<tr><td><a href="variables/B01001_001.json" name="B01001_001">B01001_001</a></td><td>Estimate!!Total</td></tr><tr><td><a href="variables/B01001_002.json" name="B01001_002">B01001_002</a></td><td>Estimate!!Male</td></tr>'' 0
     = [(''B01001_002'', ''Estimate!!Male'')]
   \<and> matches_of ''<tr><td><a href="variables/B01001_001.json" name="B01001_001">B01001_001</a></td><td>Estimate!!Total</td></tr>'' 0
     = [(''B01001_001'', ''Estimate!!Total'')]
   \<and> matches_of ''<tr><td><a href="variables/B01001_002.json" name="B01001_002">B01001_002</a></td><td>Estimate!!Male</td></tr>'' 0
     = [(''B01001_002'', ''Estimate!!Male'')]
   \<and> matches_of ''<tr><td><a href="variables/B01001_001.json" name="B01001_001">B01001_001</a></td><td>Estimate!!Total</td></tr>\<newline><tr><td><a href="variables/B01001_002.json" name="B01001_002">B01001_002</a></td><td>Estimate!!Male</td></tr>'' 0
     = [(''B01001_001'', ''Estimate!!Total''), (''B01001_002'', ''Estimate!!Male'')]\<close>
proof (intro conjI)
  show \<open>matches_of ''<tr><td><a href="variables/B01001_001.json" name="B01001_001">B01001_001</a></td><td>Estimate!!Total</td></tr><tr><td><a href="variables/B01001_002.json" name="B01001_002">B01001_002</a></td><td>Estimate!!Male</td></tr>'' 0
     = [(''B01001_002'', ''Estimate!!Male'')]\<close>
    by code_simp
  show \<open>matches_of ''<tr><td><a href="variables/B01001_001.json" name="B01001_001">B01001_001</a></td><td>Estimate!!Total</td></tr>'' 0
     = [(''B01001_001'', ''Estimate!!Total'')]\<close>
    by code_simp
  show \<open>matches_of ''<tr><td><a href="variables/B01001_002.json" name="B01001_002">B01001_002</a></td><td>Estimate!!Male</td></tr>'' 0
     = [(''B01001_002'', ''Estimate!!Male'')]\<close>
    by code_simp
  show \<open>matches_of ''<tr><td><a href="variables/B01001_001.json" name="B01001_001">B01001_001</a></td><td>Estimate!!Total</td></tr>\<newline><tr><td><a href="variables/B01001_002.json" name="B01001_002">B01001_002</a></td><td>Estimate!!Male</td></tr>'' 0
     = [(''B01001_001'', ''Estimate!!Total''), (''B01001_002'', ''Estimate!!Male'')]\<close>
    by code_simp
qed

section \<open>The generated code\<close>

lemma py_lower_char_eq_newline [simp]: "py_lower_char c = CHR 0x0A \<longleftrightarrow> c = CHR 0x0A"
proof -
  have "py_lower_char c = CHR 0x0A \<longleftrightarrow>
          (of_char (py_lower_char c) :: nat) = of_char (CHR 0x0A)"
    by (simp only: of_char_eq_iff)
  also have "\<dots> \<longleftrightarrow> (of_char c :: nat) = of_char (CHR 0x0A)"
    unfolding of_char_py_lower by (auto split: if_splits)
  also have "\<dots> \<longleftrightarrow> c = CHR 0x0A"
    by (simp only: of_char_eq_iff)
  finally show ?thesis .
qed

lemma to_name_path_eq_spec: "to_name_path label = normalize_spec label"
  by (simp add: to_name_path_def normalize_spec_def py_lower_def
        py_replace_char_map py_replace_char_filter py_replace_bangs)

lemma set_bangs_to_dot: "set (bangs_to_dot s) \<subseteq> insert CHR ''.'' (set s)"
  by (induction s rule: bangs_to_dot.induct) auto

lemma to_name_path_no_newline:
  assumes "CHR 0x0A \<notin> set n"
  shows "CHR 0x0A \<notin> set (to_name_path n)"
proof
  assume "CHR 0x0A \<in> set (to_name_path n)"
  then have "CHR 0x0A \<in> set (bangs_to_dot (map py_lower_char n))"
    by (auto simp: to_name_path_eq_spec normalize_spec_def split: if_splits)
  with set_bangs_to_dot have "CHR 0x0A \<in> insert CHR ''.'' (set (map py_lower_char n))"
    by blast
  then have "CHR 0x0A \<in> py_lower_char ` set n" by simp
  then obtain c where c: "c \<in> set n" "CHR 0x0A = py_lower_char c" by (rule imageE)
  from c(2) have "py_lower_char c = CHR 0x0A" by (rule sym)
  then have "c = CHR 0x0A" by simp
  with c(1) have "CHR 0x0A \<in> set n" by simp
  with assms show False by simp
qed

lemma py_split_append_sep: "py_split c (a @ c # b) = py_split c a @ py_split c b"
proof (induction a)
  case Nil
  show ?case by simp
next
  case (Cons x a)
  then show ?case
    by (cases "py_split c a") (auto simp: py_split_not_Nil)
qed

lemma lines_join:
  "ls \<noteq> [] \<Longrightarrow> \<forall>l\<in>set ls. CHR 0x0A \<notin> set l \<Longrightarrow>
     py_split CHR 0x0A (py_join [CHR '','', CHR 0x0A] ls @ CHR 0x0A # rest)
       = with_commas ls @ py_split CHR 0x0A rest"
proof (induction ls rule: with_commas.induct)
  case 1
  then show ?case by simp
next
  case (2 l)
  then show ?case by (simp add: py_split_append_sep py_split_no_sep)
next
  case (3 l m ls)
  have "py_join [CHR '','', CHR 0x0A] (l # m # ls) @ CHR 0x0A # rest
          = (l @ '','') @ CHR 0x0A # (py_join [CHR '','', CHR 0x0A] (m # ls) @ CHR 0x0A # rest)"
    by simp
  moreover have "py_split CHR 0x0A (l @ '','') = [l @ '','']"
    using 3 by (intro py_split_no_sep) simp
  ultimately show ?case
    using 3 by (simp only: py_split_append_sep) simp
qed

lemma codegen_lines:
  assumes ne: "ms \<noteq> []"
    and nl: "\<forall>(i, n) \<in> set ms. CHR 0x0A \<notin> set i \<and> CHR 0x0A \<notin> set n"
  shows \<open>py_split CHR 0x0A (codegen ms) =
           [''use serde::{Deserialize, Serialize};'', [],
            ''#[derive(Serialize, Deserialize)]'',
            ''#[serde(rename_all = "SCREAMING_SNAKE_CASE")]'',
            ''pub enum ClassName {'']
         @ with_commas (map (\<lambda>(i, n). ''    '' @ i) ms)
         @ [''}'', [],
            ''impl ToString for ClassName {'',
            ''    fn to_string(&self) -> String {'',
            ''        use ClassName as C;'',
            ''        match self {'']
         @ with_commas (map (\<lambda>(i, n). ''                C::'' @ i @ '' => String::from("'' @ n @ ''")'') ms)
         @ [''        }'', ''    }'', ''}'', [],
            ''impl ClassName {'', ''    '',
            ''    fn to_path(&self) -> String {'',
            ''        use ClassName as C;'',
            ''        match self {'']
         @ with_commas (map (\<lambda>(i, n). ''                C::'' @ i @ '' => Ok(String::from("''
                                     @ to_name_path n @ ''"))'') ms)
         @ [''        }'', ''    }'', ''}'', ''    '']\<close>
proof -
  define E where "E = map (\<lambda>(g, _). ''    '' @ g) ms"
  define S where "S = map (\<lambda>(g, n). to_string_gen g n) ms"
  define P where "P = map (\<lambda>(g, n). to_path_gen g n) ms"
  have e: "\<And>rest. py_split CHR 0x0A (py_join [CHR '','', CHR 0x0A] E @ CHR 0x0A # rest)
                   = with_commas E @ py_split CHR 0x0A rest"
    unfolding E_def using ne nl by (intro lines_join) auto
  have s: "\<And>rest. py_split CHR 0x0A (py_join [CHR '','', CHR 0x0A] S @ CHR 0x0A # rest)
                   = with_commas S @ py_split CHR 0x0A rest"
    unfolding S_def using ne nl by (intro lines_join) (auto simp: to_string_gen_def)
  have p: "\<And>rest. py_split CHR 0x0A (py_join [CHR '','', CHR 0x0A] P @ CHR 0x0A # rest)
                   = with_commas P @ py_split CHR 0x0A rest"
    unfolding P_def using ne nl
    by (intro lines_join) (auto simp: to_path_gen_def Let_def to_name_path_no_newline)
  have E': \<open>E = map (\<lambda>(i, n). ''    '' @ i) ms\<close>
    by (simp add: E_def)
  have S': \<open>S = map (\<lambda>(i, n). ''                C::'' @ i @ '' => String::from("'' @ n @ ''")'') ms\<close>
    by (simp add: S_def to_string_gen_def)
  have P': \<open>P = map (\<lambda>(i, n). ''                C::'' @ i @ '' => Ok(String::from("''
                                     @ to_name_path n @ ''"))'') ms\<close>
    by (simp add: P_def to_path_gen_def Let_def)
  have cg: \<open>codegen ms =
       ''use serde::{Deserialize, Serialize};\<newline>\<newline>#[derive(Serialize, Deserialize)]\<newline>#[serde(rename_all = "SCREAMING_SNAKE_CASE")]\<newline>pub enum ClassName {\<newline>''
       @ py_join [CHR '','', CHR 0x0A] E
       @ ''\<newline>}\<newline>\<newline>impl ToString for ClassName {\<newline>    fn to_string(&self) -> String {\<newline>        use ClassName as C;\<newline>        match self {\<newline>''
       @ py_join [CHR '','', CHR 0x0A] S
       @ ''\<newline>        }\<newline>    }\<newline>}\<newline>\<newline>impl ClassName {\<newline>    \<newline>    fn to_path(&self) -> String {\<newline>        use ClassName as C;\<newline>        match self {\<newline>''
       @ py_join [CHR '','', CHR 0x0A] P
       @ ''\<newline>        }\<newline>    }\<newline>}\<newline>    ''\<close>
    unfolding codegen_def Let_def class_name_def E_def S_def P_def by simp
  have \<open>py_split CHR 0x0A (codegen ms) =
           [''use serde::{Deserialize, Serialize};'', [],
            ''#[derive(Serialize, Deserialize)]'',
            ''#[serde(rename_all = "SCREAMING_SNAKE_CASE")]'',
            ''pub enum ClassName {'']
         @ with_commas E
         @ [''}'', [],
            ''impl ToString for ClassName {'',
            ''    fn to_string(&self) -> String {'',
            ''        use ClassName as C;'',
            ''        match self {'']
         @ with_commas S
         @ [''        }'', ''    }'', ''}'', [],
            ''impl ClassName {'', ''    '',
            ''    fn to_path(&self) -> String {'',
            ''        use ClassName as C;'',
            ''        match self {'']
         @ with_commas P
         @ [''        }'', ''    }'', ''}'', ''    '']\<close>
    unfolding cg by (simp add: e s p)
  then show ?thesis
    unfolding E' S' P' .
qed

lemma matches_of_no_newline:
  assumes "(i, l) \<in> set (matches_of contents k)"
  shows "CHR 0x0A \<notin> set i \<and> CHR 0x0A \<notin> set l"
proof -
  from matches_of_shape [OF assms] obtain a b where
    i: "i = a @ ''_'' @ b" and w: "\<forall>x\<in>set a. is_word x" "\<forall>x\<in>set b. is_word x"
    and n: "\<forall>x\<in>set l. in_class Name x"
    by blast
  from w have "CHR 0x0A \<notin> set a" "CHR 0x0A \<notin> set b" using is_word_not_newline by blast+
  with i have "CHR 0x0A \<notin> set i" by simp
  moreover from n have "CHR 0x0A \<notin> set l" using in_class_Name_not_newline by blast
  ultimately show ?thesis by simp
qed

text \<open>
  Claim C4. For a non-empty extraction set with pairwise distinct group parts,
  \<open>write_rust\<close> writes the text \<open>codegen ms\<close>, whose lines are: the five opening lines;
  one variant line per record, in order, which is the record's identifier as matched
  (so there are as many variants as distinct groups, and no two variants are equal);
  the lines opening the label method; one arm per record, in order, from the variant to
  the label as a string literal; the lines opening the path method; one arm per record,
  in order, from the variant to the normalized label; the closing lines.
\<close>

theorem write_rust_sections:
  assumes "ms = matches_of contents k" and "ms \<noteq> []"
    and "distinct (map (\<lambda>(i, n). group_part i) ms)"
  shows \<open>write_rust ms fn fs = (Inr (), fs(fn \<mapsto> codegen ms))
       \<and> py_split CHR 0x0A (codegen ms) =
           [''use serde::{Deserialize, Serialize};'', [],
            ''#[derive(Serialize, Deserialize)]'',
            ''#[serde(rename_all = "SCREAMING_SNAKE_CASE")]'',
            ''pub enum ClassName {'']
         @ with_commas (map (\<lambda>(i, n). ''    '' @ i) ms)
         @ [''}'', [],
            ''impl ToString for ClassName {'',
            ''    fn to_string(&self) -> String {'',
            ''        use ClassName as C;'',
            ''        match self {'']
         @ with_commas (map (\<lambda>(i, n). ''                C::'' @ i @ '' => String::from("'' @ n @ ''")'') ms)
         @ [''        }'', ''    }'', ''}'', [],
            ''impl ClassName {'', ''    '',
            ''    fn to_path(&self) -> String {'',
            ''        use ClassName as C;'',
            ''        match self {'']
         @ with_commas (map (\<lambda>(i, n). ''                C::'' @ i @ '' => Ok(String::from("''
                                     @ to_name_path n @ ''"))'') ms)
         @ [''        }'', ''    }'', ''}'', ''    '']
       \<and> length ms = card ((\<lambda>(i, n). group_part i) ` set ms)
       \<and> distinct (map fst ms)\<close>
proof (intro conjI)
  show "write_rust ms fn fs = (Inr (), fs(fn \<mapsto> codegen ms))"
    by (simp add: write_rust_def f_write_def open_w_def)
  have nl: "\<forall>(i, n) \<in> set ms. CHR 0x0A \<notin> set i \<and> CHR 0x0A \<notin> set n"
    unfolding assms(1) using matches_of_no_newline by blast
  show \<open>py_split CHR 0x0A (codegen ms) =
           [''use serde::{Deserialize, Serialize};'', [],
            ''#[derive(Serialize, Deserialize)]'',
            ''#[serde(rename_all = "SCREAMING_SNAKE_CASE")]'',
            ''pub enum ClassName {'']
         @ with_commas (map (\<lambda>(i, n). ''    '' @ i) ms)
         @ [''}'', [],
            ''impl ToString for ClassName {'',
            ''    fn to_string(&self) -> String {'',
            ''        use ClassName as C;'',
            ''        match self {'']
         @ with_commas (map (\<lambda>(i, n). ''                C::'' @ i @ '' => String::from("'' @ n @ ''")'') ms)
         @ [''        }'', ''    }'', ''}'', [],
            ''impl ClassName {'', ''    '',
            ''    fn to_path(&self) -> String {'',
            ''        use ClassName as C;'',
            ''        match self {'']
         @ with_commas (map (\<lambda>(i, n). ''                C::'' @ i @ '' => Ok(String::from("''
                                     @ to_name_path n @ ''"))'') ms)
         @ [''        }'', ''    }'', ''}'', ''    '']\<close>
    by (rule codegen_lines [OF assms(2) nl])
  from assms(3) show "length ms = card ((\<lambda>(i, n). group_part i) ` set ms)"
    using distinct_card [of "map (\<lambda>(i, n). group_part i) ms"] by simp
  have "map (\<lambda>(i, n). group_part i) ms = map group_part (map fst ms)"
    by (simp add: case_prod_beta comp_def)
  with assms(3) have "distinct (map group_part (map fst ms))"
    by (simp only:)
  then show "distinct (map fst ms)"
    by (simp only: distinct_map [of group_part "map fst ms"])
qed

text \<open>
  Claim C5 fails on the code. In the text generated for one record the path method is
  declared to return \<^verbatim>\<open>String\<close>, while its arm is \<^verbatim>\<open>Ok(String::from(...))\<close>, a
  \<^verbatim>\<open>Result\<close>: the arm visibly aims at a result-bearing method, the signature does not
  follow, and a Rust compiler rejects the file for the mismatched types.
\<close>

theorem codegen_to_path_signature:
  \<open>py_split CHR 0x0A (codegen [(''B01001_001'', ''Estimate!!Total'')]) =
     [''use serde::{Deserialize, Serialize};'',
      [],
      ''#[derive(Serialize, Deserialize)]'',
      ''#[serde(rename_all = "SCREAMING_SNAKE_CASE")]'',
      ''pub enum ClassName {'',
      ''    B01001_001'',
      ''}'',
      [],
      ''impl ToString for ClassName {'',
      ''    fn to_string(&self) -> String {'',
      ''        use ClassName as C;'',
      ''        match self {'',
      ''                C::B01001_001 => String::from("Estimate!!Total")'',
      ''        }'',
      ''    }'',
      ''}'',
      [],
      ''impl ClassName {'',
      ''    '',
      ''    fn to_path(&self) -> String {'',
      ''        use ClassName as C;'',
      ''        match self {'',
      ''                C::B01001_001 => Ok(String::from("estimate.total"))'',
      ''        }'',
      ''    }'',
      ''}'',
      ''    '']\<close>
  by code_simp

theorem write_rust_sections_witness:
  \<open>matches_of (row_fragment 2 ''B01001_001.json'' ''B01001_001'' ''B01001_001'' ''Estimate!!Total''
                 @ [CHR 0x0A] @
               row_fragment 2 ''B01002_001.json'' ''B01002_001'' ''B01002_001'' ''Estimate!!Median age'') 2
     = [(''B01001_001'', ''Estimate!!Total''), (''B01002_001'', ''Estimate!!Median age'')]
   \<and> [(''B01001_001'', ''Estimate!!Total''), (''B01002_001'', ''Estimate!!Median age'')] \<noteq> []
   \<and> distinct (map (\<lambda>(i, n). group_part i)
         [(''B01001_001'', ''Estimate!!Total''), (''B01002_001'', ''Estimate!!Median age'')])
   \<and> py_split CHR 0x0A
        (codegen [(''B01001_001'', ''Estimate!!Total''), (''B01002_001'', ''Estimate!!Median age'')]) =
     [''use serde::{Deserialize, Serialize};'',
      [],
      ''#[derive(Serialize, Deserialize)]'',
      ''#[serde(rename_all = "SCREAMING_SNAKE_CASE")]'',
      ''pub enum ClassName {'',
      ''    B01001_001,'',
      ''    B01002_001'',
      ''}'',
      [],
      ''impl ToString for ClassName {'',
      ''    fn to_string(&self) -> String {'',
      ''        use ClassName as C;'',
      ''        match self {'',
      ''                C::B01001_001 => String::from("Estimate!!Total"),'',
      ''                C::B01002_001 => String::from("Estimate!!Median age")'',
      ''        }'',
      ''    }'',
      ''}'',
      [],
      ''impl ClassName {'',
      ''    '',
      ''    fn to_path(&self) -> String {'',
      ''        use ClassName as C;'',
      ''        match self {'',
      ''                C::B01001_001 => Ok(String::from("estimate.total")),'',
      ''                C::B01002_001 => Ok(String::from("estimate.median_age"))'',
      ''        }'',
      ''    }'',
      ''}'',
      ''    '']
   \<and> length [(''B01001_001'', ''Estimate!!Total''), (''B01002_001'', ''Estimate!!Median age'')]
       = card ((\<lambda>(i, n). group_part i)
                ` set [(''B01001_001'', ''Estimate!!Total''), (''B01002_001'', ''Estimate!!Median age'')])\<close>
proof -
  let ?doc = "row_fragment 2 ''B01001_001.json'' ''B01001_001'' ''B01001_001'' ''Estimate!!Total''
                 @ [CHR 0x0A] @
               row_fragment 2 ''B01002_001.json'' ''B01002_001'' ''B01002_001'' ''Estimate!!Median age''"
  let ?ms = "[(''B01001_001'', ''Estimate!!Total''), (''B01002_001'', ''Estimate!!Median age'')]"
  have m: "matches_of ?doc 2 = ?ms"
    by code_simp
  have ne: "?ms \<noteq> []"
    by simp
  have d: "distinct (map (\<lambda>(i, n). group_part i) ?ms)"
    by code_simp
  note t = write_rust_sections [of ?ms ?doc 2, OF m [symmetric] ne d]
  have v: \<open>[''use serde::{Deserialize, Serialize};'', [],
            ''#[derive(Serialize, Deserialize)]'',
            ''#[serde(rename_all = "SCREAMING_SNAKE_CASE")]'',
            ''pub enum ClassName {'']
         @ with_commas (map (\<lambda>(i, n). ''    '' @ i) ?ms)
         @ [''}'', [],
            ''impl ToString for ClassName {'',
            ''    fn to_string(&self) -> String {'',
            ''        use ClassName as C;'',
            ''        match self {'']
         @ with_commas (map (\<lambda>(i, n). ''                C::'' @ i @ '' => String::from("'' @ n @ ''")'') ?ms)
         @ [''        }'', ''    }'', ''}'', [],
            ''impl ClassName {'', ''    '',
            ''    fn to_path(&self) -> String {'',
            ''        use ClassName as C;'',
            ''        match self {'']
         @ with_commas (map (\<lambda>(i, n). ''                C::'' @ i @ '' => Ok(String::from("''
                                     @ to_name_path n @ ''"))'') ?ms)
         @ [''        }'', ''    }'', ''}'', ''    '']
      = [''use serde::{Deserialize, Serialize};'',
      [],
      ''#[derive(Serialize, Deserialize)]'',
      ''#[serde(rename_all = "SCREAMING_SNAKE_CASE")]'',
      ''pub enum ClassName {'',
      ''    B01001_001,'',
      ''    B01002_001'',
      ''}'',
      [],
      ''impl ToString for ClassName {'',
      ''    fn to_string(&self) -> String {'',
      ''        use ClassName as C;'',
      ''        match self {'',
      ''                C::B01001_001 => String::from("Estimate!!Total"),'',
      ''                C::B01002_001 => String::from("Estimate!!Median age")'',
      ''        }'',
      ''    }'',
      ''}'',
      [],
      ''impl ClassName {'',
      ''    '',
      ''    fn to_path(&self) -> String {'',
      ''        use ClassName as C;'',
      ''        match self {'',
      ''                C::B01001_001 => Ok(String::from("estimate.total")),'',
      ''                C::B01002_001 => Ok(String::from("estimate.median_age"))'',
      ''        }'',
      ''    }'',
      ''}'',
      ''    '']\<close>
    by code_simp
  note l = t [THEN conjunct2, THEN conjunct1, unfolded v]
  note c = t [THEN conjunct2, THEN conjunct2, THEN conjunct1]
  from m ne d l c show ?thesis by (intro conjI)
qed

end
